theory Spec2Isabelle
  imports Main "HOL-Library.Word"
begin

section \<open>The Bw-tree of \<^verbatim>\<open>src/backend/index/bwtree.h\<close>\<close>

text \<open>
  A shallow embedding of the class \<^verbatim>\<open>BWTree\<close>, executed by one thread. A \<^verbatim>\<open>Node*\<close> is
  modelled by the node it points to (\<open>None\<close> is \<^verbatim>\<open>nullptr\<close>); the delta chain hanging off
  \<^verbatim>\<open>next\<close> is the sub-term of the delta. The compare-and-swap of a mapping-table slot
  compares the slot with the expected node. Keys are any linear order: \<^verbatim>\<open>m_key_less\<close> is
  \<open><\<close> and \<^verbatim>\<open>m_key_equal\<close> is \<open>=\<close>. Every instantiation of the template has
  \<^verbatim>\<open>ValueType = ItemPointer\<close>.
\<close>

subsection \<open>Outcomes\<close>

text \<open>
  A call returns a value, stops in a fatal assertion or in undefined behaviour of C++
  (\<open>Err\<close>), or does not return: an endless loop, or the fuel of a loop ran out
  (\<open>NoReturn\<close>).
\<close>

datatype error =
    AssertKeyIsInSplit         \<comment> \<open>key\_is\_in: "split wrong branch", assert(0)\<close>
  | AssertCountPairSplit       \<comment> \<open>count\_pair: "split wrong branch", assert(0)\<close>
  | AssertCountPairOrder       \<comment> \<open>delete\_entry: "count pair second > first", assert(0)\<close>
  | AssertInvalidSplit         \<comment> \<open>consolidate: "invalid prevous split", assert(0)\<close>
  | AssertLeafSize             \<comment> \<open>consolidate: "wrong consolidated leaf key size"\<close>
  | AssertInnerSize            \<comment> \<open>consolidate: "wrong consolidated inner key size"\<close>
  | AssertChainTopNotLeaf      \<comment> \<open>leaf\_fake\_consolidate: "delta chain top not LEAF"\<close>
  | AssertChainTopNotInner     \<comment> \<open>inner\_fake\_consolidate: assert on the chain top\<close>
  | AssertSlotuse              \<comment> \<open>leaf\_fake\_consolidate: "tmpvals.size() != recordDelta->slotuse"\<close>
  | AssertAddPid               \<comment> \<open>create\_leaf, create\_inner, create\_root: add returned NULL\_PID\<close>
  | AssertRootCas              \<comment> \<open>create\_root: assert(i++ < 5)\<close>
  | AssertChildrenChanged      \<comment> \<open>find\_parent: "In re-find parent, children changed"\<close>
  | AssertSplitCleanup         \<comment> \<open>split: "delete node before retry fail!", assert(0)\<close>
  | AssertInitialLeaf          \<comment> \<open>constructor: "Can't create the initial leafNode!"\<close>
  | NullDeref                  \<comment> \<open>a null Node* or a null slotdata entry is dereferenced\<close>
  | EmptyStack                 \<comment> \<open>top() or pop() of an empty std::stack\<close>
  | OutOfRange                 \<comment> \<open>an array or vector is indexed outside what was written\<close>
  | UninitPid                  \<comment> \<open>Node::pid is read before set or add assigned it\<close>

datatype 'a result = Ok 'a | Err error | NoReturn

fun bnd :: "'a result \<Rightarrow> ('a \<Rightarrow> 'b result) \<Rightarrow> 'b result" where
  "bnd (Ok x) f = f x"
| "bnd (Err e) f = Err e"
| "bnd NoReturn f = NoReturn"

subsection \<open>Constants and key comparison\<close>

type_synonym PidType = int

definition NULL_PID :: PidType where
  "NULL_PID = - 1"

definition BWTREE_NODE_SIZE :: nat where
  "BWTREE_NODE_SIZE = 256"

definition MAX_DELTA_CHAIN_LEN :: "64 word" where
  "MAX_DELTA_CHAIN_LEN = 8"

definition MAPPING_TABLE_SIZE :: int where
  "MAPPING_TABLE_SIZE = 2 ^ 10"

definition GET_TIER1_INDEX :: "PidType \<Rightarrow> int" where
  "GET_TIER1_INDEX pid = drop_bit 10 pid"

definition GET_TIER2_INDEX :: "PidType \<Rightarrow> int" where
  "GET_TIER2_INDEX pid = take_bit 10 pid"

datatype NodeType =
  LEAF | INNER | RECORD_DELTA | INDEX_ENTRY_DELTA | REMOVE_NODE_DELTA
  | MERGE_DELTA | DELETE_INDEX_TERM_DELTA | SPLIT_DELTA

datatype RecordType = INSERT | DELETE | UPDATE

text \<open>\<^verbatim>\<open>ItemPointer\<close>: the equality checker compares both fields, the hash of \<^verbatim>\<open>DelSet\<close>
  depends on both only, so a \<^verbatim>\<open>DelSet\<close> is a set of item pointers.\<close>

datatype ItemPointer = ItemPointer (block: nat) (offset: nat)

type_synonym DelSet = "ItemPointer set"

definition key_less :: "'k::linorder \<Rightarrow> 'k \<Rightarrow> bool \<Rightarrow> bool" where
  "key_less a b b_max_inf = (if b_max_inf then True else a < b)"

definition key_lessequal :: "'k::linorder \<Rightarrow> 'k \<Rightarrow> bool \<Rightarrow> bool" where
  "key_lessequal a b b_max_inf = (if b_max_inf then True else \<not> b < a)"

definition key_greater :: "'k::linorder \<Rightarrow> 'k \<Rightarrow> bool \<Rightarrow> bool" where
  "key_greater a b b_min_inf = (if b_min_inf then True else b < a)"

definition key_greaterequal :: "'k::linorder \<Rightarrow> 'k \<Rightarrow> bool \<Rightarrow> bool" where
  "key_greaterequal a b b_min_inf = (if b_min_inf then True else \<not> a < b)"

definition key_equal :: "'k::linorder \<Rightarrow> 'k \<Rightarrow> bool" where
  "key_equal a b = (a = b)"

definition value_equal :: "ItemPointer \<Rightarrow> ItemPointer \<Rightarrow> bool" where
  "value_equal a b = (block a = block b \<and> offset a = offset b)"

subsection \<open>Nodes\<close>

text \<open>
  The fields of \<^verbatim>\<open>struct Node\<close> other than \<^verbatim>\<open>next\<close>, \<^verbatim>\<open>node_type\<close> and the reference to the
  mapping table. \<^verbatim>\<open>slotuse\<close> is an \<^verbatim>\<open>unsigned short\<close>, \<^verbatim>\<open>delta_list_len\<close> a \<^verbatim>\<open>size_t\<close>. The
  constructor of \<^verbatim>\<open>Node\<close> leaves \<^verbatim>\<open>pid\<close> unassigned: \<open>None\<close>.
\<close>

record 'k Node_hdr =
  delta_list_len :: "64 word"
  next_leafnode :: PidType
  is_leaf :: bool
  low_key :: 'k
  high_key :: 'k
  inf_lowkey :: bool
  inf_highkey :: bool
  slotuse :: "16 word"
  pid :: "PidType option"

text \<open>
  The node hierarchy, one constructor per class; \<^verbatim>\<open>node_type\<close> is the constructor. The
  arrays \<^verbatim>\<open>slotkey\<close>, \<^verbatim>\<open>slotdata\<close> and \<^verbatim>\<open>childid\<close> are the list of the entries written so far,
  from index 0. The last argument of a delta is \<^verbatim>\<open>next\<close>. No code constructs a
  \<^verbatim>\<open>DeleteIndexDelta\<close> (its constructor tags it \<^verbatim>\<open>INDEX_ENTRY_DELTA\<close>); it is left out.
\<close>

datatype 'k Node =
    LeafNode "'k Node_hdr" "'k list" "ItemPointer list list"
  | InnerNode "'k Node_hdr" "'k list" "PidType list"
  | RecordDelta "'k Node_hdr" RecordType 'k ItemPointer "'k Node"
  | SplitDelta "'k Node_hdr" 'k PidType "'k Node"
  | IndexEntryDelta "'k Node_hdr" 'k 'k bool PidType "'k Node"
  | RemoveDelta "'k Node_hdr" "'k Node"
  | MergeDelta "'k Node_hdr" 'k "'k Node option" "'k Node"

fun hdr :: "'k Node \<Rightarrow> 'k Node_hdr" where
  "hdr (LeafNode h _ _) = h"
| "hdr (InnerNode h _ _) = h"
| "hdr (RecordDelta h _ _ _ _) = h"
| "hdr (SplitDelta h _ _ _) = h"
| "hdr (IndexEntryDelta h _ _ _ _ _) = h"
| "hdr (RemoveDelta h _) = h"
| "hdr (MergeDelta h _ _ _) = h"

fun map_hdr :: "('k Node_hdr \<Rightarrow> 'k Node_hdr) \<Rightarrow> 'k Node \<Rightarrow> 'k Node" where
  "map_hdr f (LeafNode h ks vs) = LeafNode (f h) ks vs"
| "map_hdr f (InnerNode h ks cs) = InnerNode (f h) ks cs"
| "map_hdr f (RecordDelta h op k v n) = RecordDelta (f h) op k v n"
| "map_hdr f (SplitDelta h kp pq n) = SplitDelta (f h) kp pq n"
| "map_hdr f (IndexEntryDelta h kp kq i pq n) = IndexEntryDelta (f h) kp kq i pq n"
| "map_hdr f (RemoveDelta h n) = RemoveDelta (f h) n"
| "map_hdr f (MergeDelta h kp on n) = MergeDelta (f h) kp on n"

fun node_type :: "'k Node \<Rightarrow> NodeType" where
  "node_type (LeafNode _ _ _) = LEAF"
| "node_type (InnerNode _ _ _) = INNER"
| "node_type (RecordDelta _ _ _ _ _) = RECORD_DELTA"
| "node_type (SplitDelta _ _ _ _) = SPLIT_DELTA"
| "node_type (IndexEntryDelta _ _ _ _ _ _) = INDEX_ENTRY_DELTA"
| "node_type (RemoveDelta _ _) = REMOVE_NODE_DELTA"
| "node_type (MergeDelta _ _ _ _) = MERGE_DELTA"

fun "next" :: "'k Node \<Rightarrow> 'k Node option" where
  "next (LeafNode _ _ _) = None"
| "next (InnerNode _ _ _) = None"
| "next (RecordDelta _ _ _ _ n) = Some n"
| "next (SplitDelta _ _ _ n) = Some n"
| "next (IndexEntryDelta _ _ _ _ _ n) = Some n"
| "next (RemoveDelta _ n) = Some n"
| "next (MergeDelta _ _ _ n) = Some n"

fun set_next :: "'k Node \<Rightarrow> 'k Node \<Rightarrow> 'k Node" where
  "set_next (RecordDelta h op k v _) n = RecordDelta h op k v n"
| "set_next (SplitDelta h kp pq _) n = SplitDelta h kp pq n"
| "set_next (IndexEntryDelta h kp kq i pq _) n = IndexEntryDelta h kp kq i pq n"
| "set_next (RemoveDelta h _) n = RemoveDelta h n"
| "set_next (MergeDelta h kp on _) n = MergeDelta h kp on n"
| "set_next (LeafNode h ks vs) n = LeafNode h ks vs"
| "set_next (InnerNode h ks cs) n = InnerNode h ks cs"

definition Node_ctor ::
  "64 word \<Rightarrow> PidType \<Rightarrow> bool \<Rightarrow> 'k \<Rightarrow> 'k \<Rightarrow> bool \<Rightarrow> bool \<Rightarrow> 'k Node_hdr" where
  "Node_ctor delta_l next_leaf is_lf lowkey highkey inf_low inf_high =
     \<lparr> delta_list_len = delta_l, next_leafnode = next_leaf, is_leaf = is_lf,
       low_key = lowkey, high_key = highkey, inf_lowkey = inf_low, inf_highkey = inf_high,
       slotuse = 0, pid = None \<rparr>"

text \<open>\<^verbatim>\<open>prepend(delta_node, orig_node)\<close>: the chain length of the delta and its \<^verbatim>\<open>next\<close>.\<close>

definition prepend :: "'k Node \<Rightarrow> 'k Node \<Rightarrow> 'k Node" where
  "prepend delta_node orig_node =
     set_next
       (map_hdr (\<lambda>h. h\<lparr>delta_list_len := delta_list_len (hdr orig_node) + 1\<rparr>) delta_node)
       orig_node"

definition new_InnerNode :: "'k \<Rightarrow> 'k \<Rightarrow> bool \<Rightarrow> bool \<Rightarrow> 'k Node" where
  "new_InnerNode lowkey highkey inf_low inf_high =
     InnerNode (Node_ctor 0 NULL_PID False lowkey highkey inf_low inf_high) [] []"

definition new_LeafNode :: "PidType \<Rightarrow> 'k \<Rightarrow> 'k \<Rightarrow> bool \<Rightarrow> bool \<Rightarrow> 'k Node" where
  "new_LeafNode next_leaf lowkey highkey inf_low inf_high =
     LeafNode (Node_ctor 0 next_leaf True lowkey highkey inf_low inf_high) [] []"

definition new_RecordDelta ::
  "'k Node \<Rightarrow> RecordType \<Rightarrow> 'k \<Rightarrow> ItemPointer \<Rightarrow> PidType \<Rightarrow> 'k \<Rightarrow> 'k \<Rightarrow> bool \<Rightarrow> bool
   \<Rightarrow> 'k Node" where
  "new_RecordDelta nxt op k v next_leaf lowkey highkey inf_low inf_high =
     map_hdr (\<lambda>h. h\<lparr>slotuse := slotuse (hdr nxt)\<rparr>)
       (prepend
          (RecordDelta (Node_ctor 0 next_leaf (is_leaf (hdr nxt)) lowkey highkey inf_low inf_high)
             op k v nxt)
          nxt)"

definition new_SplitDelta ::
  "'k Node \<Rightarrow> 'k \<Rightarrow> PidType \<Rightarrow> PidType \<Rightarrow> 'k \<Rightarrow> 'k \<Rightarrow> bool \<Rightarrow> bool \<Rightarrow> 'k Node" where
  "new_SplitDelta nxt Kp pQ next_leaf lowkey highkey inf_low inf_high =
     map_hdr (\<lambda>h. h\<lparr>slotuse := slotuse (hdr nxt) div 2\<rparr>)
       (prepend
          (SplitDelta (Node_ctor 0 next_leaf (is_leaf (hdr nxt)) lowkey highkey inf_low inf_high)
             Kp pQ nxt)
          nxt)"

definition new_IndexEntryDelta ::
  "'k Node \<Rightarrow> 'k \<Rightarrow> 'k \<Rightarrow> bool \<Rightarrow> PidType \<Rightarrow> PidType \<Rightarrow> 'k \<Rightarrow> 'k \<Rightarrow> bool \<Rightarrow> bool
   \<Rightarrow> 'k Node" where
  "new_IndexEntryDelta nxt Kp Kq Kq_is_inf pQ next_leaf lowkey highkey inf_low inf_high =
     map_hdr (\<lambda>h. h\<lparr>slotuse := slotuse (hdr nxt) + 1\<rparr>)
       (prepend
          (IndexEntryDelta
             (Node_ctor 0 next_leaf (is_leaf (hdr nxt)) lowkey highkey inf_low inf_high)
             Kp Kq Kq_is_inf pQ nxt)
          nxt)"

definition new_RemoveDelta ::
  "'k Node \<Rightarrow> PidType \<Rightarrow> 'k \<Rightarrow> 'k \<Rightarrow> bool \<Rightarrow> bool \<Rightarrow> 'k Node" where
  "new_RemoveDelta nxt next_leaf lowkey highkey inf_low inf_high =
     RemoveDelta (Node_ctor 0 next_leaf (is_leaf (hdr nxt)) lowkey highkey inf_low inf_high) nxt"

definition new_MergeDelta ::
  "'k Node \<Rightarrow> 'k \<Rightarrow> 'k Node option \<Rightarrow> PidType \<Rightarrow> 'k \<Rightarrow> 'k \<Rightarrow> bool \<Rightarrow> bool \<Rightarrow> 'k Node" where
  "new_MergeDelta nxt Kp orignal_node next_leaf lowkey highkey inf_low inf_high =
     MergeDelta (Node_ctor 0 next_leaf (is_leaf (hdr nxt)) lowkey highkey inf_low inf_high)
       Kp orignal_node nxt"

definition key_in_node :: "'k::linorder \<Rightarrow> 'k Node \<Rightarrow> bool" where
  "key_in_node key node =
     (key_greaterequal key (low_key (hdr node)) (inf_lowkey (hdr node))
      \<and> key_less key (high_key (hdr node)) (inf_highkey (hdr node)))"

text \<open>Reading entry \<open>i\<close> of an array or vector.\<close>

definition slot_read :: "'a list \<Rightarrow> nat \<Rightarrow> error \<Rightarrow> 'a result" where
  "slot_read xs i e = (if i < length xs then Ok (xs ! i) else Err e)"

subsection \<open>Loops over vectors\<close>

text \<open>\<^verbatim>\<open>for (x = 0; x < xs.size(); x++) if (P(xs[x])) { ...; break; }\<close>: the index of the hit.\<close>

fun find_first :: "('a \<Rightarrow> bool) \<Rightarrow> 'a list \<Rightarrow> nat option" where
  "find_first P [] = None"
| "find_first P (x # xs) = (if P x then Some 0 else map_option Suc (find_first P xs))"

text \<open>\<^verbatim>\<open>for (x = xs.size() - 1; x >= 0; x--) if (P(xs[x])) { ...; break; }\<close>\<close>

definition find_last :: "('a \<Rightarrow> bool) \<Rightarrow> 'a list \<Rightarrow> nat option" where
  "find_last P xs = map_option (\<lambda>j. length xs - 1 - j) (find_first P (rev xs))"

text \<open>\<^verbatim>\<open>xs.insert(xs.begin() + pos, x)\<close>, \<^verbatim>\<open>xs.erase(xs.begin() + pos)\<close>, \<^verbatim>\<open>xs.resize(n)\<close>\<close>

definition vec_insert :: "nat \<Rightarrow> 'a \<Rightarrow> 'a list \<Rightarrow> 'a list result" where
  "vec_insert pos x xs =
     (if pos \<le> length xs then Ok (take pos xs @ x # drop pos xs) else Err OutOfRange)"

definition vec_erase :: "nat \<Rightarrow> 'a list \<Rightarrow> 'a list result" where
  "vec_erase pos xs =
     (if pos < length xs then Ok (take pos xs @ drop (Suc pos) xs) else Err OutOfRange)"

definition vec_resize :: "nat \<Rightarrow> 'a \<Rightarrow> 'a list \<Rightarrow> 'a list" where
  "vec_resize n d xs = take n xs @ replicate (n - length xs) d"

primrec fold_result :: "('s \<Rightarrow> 'a \<Rightarrow> 's result) \<Rightarrow> 's \<Rightarrow> 'a list \<Rightarrow> 's result" where
  "fold_result f s [] = Ok s"
| "fold_result f s (x # xs) = bnd (f s x) (\<lambda>s'. fold_result f s' xs)"

subsection \<open>Reading a leaf chain: \<^verbatim>\<open>key_is_in\<close> and \<^verbatim>\<open>count_pair\<close>\<close>

text \<open>
  \<^verbatim>\<open>for (i = 0; i < slotuse; i++) if (P(slotkey[i])) { ... }\<close> up to its first hit, where
  \<^verbatim>\<open>key_is_in\<close> returns and \<^verbatim>\<open>count_pair\<close> and \<^verbatim>\<open>search\<close> break.
\<close>

function find_slot :: "('k \<Rightarrow> bool) \<Rightarrow> 'k list \<Rightarrow> nat \<Rightarrow> nat \<Rightarrow> nat option result" where
  "find_slot P slotkey i n =
     (if i < n then
        bnd (slot_read slotkey i OutOfRange)
          (\<lambda>k. if P k then Ok (Some i) else find_slot P slotkey (Suc i) n)
      else Ok None)"
  by pat_completeness auto
termination
  by (relation "measure (\<lambda>(P, slotkey, i, n). n - i)") auto

declare find_slot.simps [simp del]

fun key_is_in :: "'k::linorder \<Rightarrow> 'k Node option \<Rightarrow> DelSet \<Rightarrow> bool result" where
  "key_is_in key None deleted = Ok False"
| "key_is_in key (Some (RecordDelta h op k v nxt)) deleted =
     (if op = INSERT \<and> key_equal k key \<and> v \<notin> deleted then Ok True
      else if op = DELETE \<and> key_equal k key then key_is_in key (Some nxt) (insert v deleted)
      else key_is_in key (Some nxt) deleted)"
| "key_is_in key (Some (LeafNode h slotkey slotdata)) deleted =
     bnd (find_slot (\<lambda>k. key_equal k key) slotkey 0 (unat (slotuse h)))
       (\<lambda>hit. case hit of
            None \<Rightarrow> Ok False
          | Some i \<Rightarrow>
              bnd (slot_read slotdata i NullDeref) (\<lambda>vals. Ok (\<exists>val \<in> set vals. val \<notin> deleted)))"
| "key_is_in key (Some (MergeDelta h Kp None nxt)) deleted =
     (if key_greaterequal key Kp False then Ok False else key_is_in key (Some nxt) deleted)"
| "key_is_in key (Some (MergeDelta h Kp (Some orignal_node) nxt)) deleted =
     (if key_greaterequal key Kp False then key_is_in key (Some orignal_node) deleted
      else key_is_in key (Some nxt) deleted)"
| "key_is_in key (Some (SplitDelta h Kp pQ nxt)) deleted =
     (if key_greaterequal key Kp False then Err AssertKeyIsInSplit
      else key_is_in key (Some nxt) deleted)"
| "key_is_in key (Some (InnerNode h ks cs)) deleted = Ok False"
| "key_is_in key (Some (IndexEntryDelta h Kp Kq i pQ nxt)) deleted = Ok False"
| "key_is_in key (Some (RemoveDelta h nxt)) deleted = Ok False"

text \<open>The values of the slot found by \<^verbatim>\<open>count_pair\<close>: \<^verbatim>\<open>for (ValueType v : *slotdata[i])\<close>.\<close>

fun count_vals :: "ItemPointer \<Rightarrow> DelSet \<Rightarrow> ItemPointer list \<Rightarrow> int \<Rightarrow> int \<Rightarrow> int \<times> int" where
  "count_vals val deleted [] total_count pair_count = (total_count, pair_count)"
| "count_vals val deleted (v # vs) total_count pair_count =
     (if v \<in> deleted then count_vals val deleted vs total_count pair_count
      else count_vals val deleted vs (total_count + 1)
             (if value_equal v val then pair_count + 1 else pair_count))"

text \<open>
  The loop of \<^verbatim>\<open>count_pair\<close>, with its variables \<^verbatim>\<open>node\<close>, \<^verbatim>\<open>total_count\<close>, \<^verbatim>\<open>pair_count\<close> and
  \<^verbatim>\<open>deleted\<close>. The \<^verbatim>\<open>default\<close> branch leaves \<^verbatim>\<open>node\<close> as it is: the loop never ends. The two
  counters are C \<^verbatim>\<open>int\<close>s, never beyond the number of values of the chain.
\<close>

fun count_pair_loop ::
  "'k::linorder \<Rightarrow> ItemPointer \<Rightarrow> 'k Node option \<Rightarrow> int \<Rightarrow> int \<Rightarrow> DelSet \<Rightarrow> (int \<times> int) result"
where
  "count_pair_loop key val None total_count pair_count deleted = Ok (total_count, pair_count)"
| "count_pair_loop key val (Some (RecordDelta h op k v nxt)) total_count pair_count deleted =
     (if op = INSERT then
        (if key_equal k key \<and> v \<notin> deleted then
           count_pair_loop key val (Some nxt) (total_count + 1)
             (if value_equal v val then pair_count + 1 else pair_count) deleted
         else count_pair_loop key val (Some nxt) total_count pair_count deleted)
      else if op = DELETE \<and> key_equal k key then
        count_pair_loop key val (Some nxt) total_count pair_count (insert v deleted)
      else count_pair_loop key val (Some nxt) total_count pair_count deleted)"
| "count_pair_loop key val (Some (LeafNode h slotkey slotdata)) total_count pair_count deleted =
     bnd (find_slot (\<lambda>k. key_equal k key) slotkey 0 (unat (slotuse h)))
       (\<lambda>hit. case hit of
            None \<Rightarrow> Ok (total_count, pair_count)
          | Some i \<Rightarrow>
              bnd (slot_read slotdata i NullDeref)
                (\<lambda>vals. Ok (count_vals val deleted vals total_count pair_count)))"
| "count_pair_loop key val (Some (MergeDelta h Kp None nxt)) total_count pair_count deleted =
     (if key_greaterequal key Kp False then Ok (total_count, pair_count)
      else count_pair_loop key val (Some nxt) total_count pair_count deleted)"
| "count_pair_loop key val (Some (MergeDelta h Kp (Some orignal_node) nxt))
       total_count pair_count deleted =
     (if key_greaterequal key Kp False then
        count_pair_loop key val (Some orignal_node) total_count pair_count deleted
      else count_pair_loop key val (Some nxt) total_count pair_count deleted)"
| "count_pair_loop key val (Some (SplitDelta h Kp pQ nxt)) total_count pair_count deleted =
     (if key_greaterequal key Kp False then Err AssertCountPairSplit
      else count_pair_loop key val (Some nxt) total_count pair_count deleted)"
| "count_pair_loop key val (Some (InnerNode h ks cs)) total_count pair_count deleted = NoReturn"
| "count_pair_loop key val (Some (IndexEntryDelta h Kp Kq i pQ nxt)) total_count pair_count
       deleted = NoReturn"
| "count_pair_loop key val (Some (RemoveDelta h nxt)) total_count pair_count deleted = NoReturn"

definition count_pair :: "'k::linorder \<Rightarrow> ItemPointer \<Rightarrow> 'k Node option \<Rightarrow> (int \<times> int) result"
where
  "count_pair key val listhead = count_pair_loop key val listhead 0 0 {}"

subsection \<open>Logical consolidation: \<^verbatim>\<open>leaf_fake_consolidate\<close>, \<^verbatim>\<open>inner_fake_consolidate\<close>\<close>

text \<open>
  \<^verbatim>\<open>while (tmp_cur_node) { delta_chain.push(tmp_cur_node); tmp_cur_node = tmp_cur_node->next; }\<close>
  The stack is a list, its top first: the base node, then the deltas from the oldest to the
  head.
\<close>

fun push_chain :: "'k Node \<Rightarrow> 'k Node list \<Rightarrow> 'k Node list" where
  "push_chain (LeafNode h ks vs) st = LeafNode h ks vs # st"
| "push_chain (InnerNode h ks cs) st = InnerNode h ks cs # st"
| "push_chain (RecordDelta h op k v n) st = push_chain n (RecordDelta h op k v n # st)"
| "push_chain (SplitDelta h kp pq n) st = push_chain n (SplitDelta h kp pq n # st)"
| "push_chain (IndexEntryDelta h kp kq i pq n) st =
     push_chain n (IndexEntryDelta h kp kq i pq n # st)"
| "push_chain (RemoveDelta h n) st = push_chain n (RemoveDelta h n # st)"
| "push_chain (MergeDelta h kp on n) st = push_chain n (MergeDelta h kp on n # st)"

text \<open>
  Copying the base node: \<^verbatim>\<open>for (i = 0; i < slotuse; i++) { push_back(slotkey[i]);
  push_back(... slotdata[i] or childid[i]) }\<close>. Every index below \<^verbatim>\<open>slotuse\<close> is read, in both
  arrays, the key first.
\<close>

definition copy_base :: "nat \<Rightarrow> 'a list \<Rightarrow> 'b list \<Rightarrow> error \<Rightarrow> ('a list \<times> 'b list) result" where
  "copy_base n slotkey slots e =
     (if n \<le> length slotkey \<and> n \<le> length slots then Ok (take n slotkey, take n slots)
      else if length slotkey \<le> length slots then Err OutOfRange
      else Err e)"

text \<open>
  One delta of a leaf chain applied to \<^verbatim>\<open>(tmpkeys, tmpvals)\<close>. The inner loop of a
  \<^verbatim>\<open>DELETE\<close> walks the values of the key from the back and erases each one equal to the
  value of the delta: the values that differ stay, in their order.
\<close>

fun leaf_apply_delta ::
  "'k::linorder list \<times> ItemPointer list list \<Rightarrow> 'k Node
   \<Rightarrow> ('k list \<times> ItemPointer list list) result" where
  "leaf_apply_delta (tmpkeys, tmpvals) (RecordDelta h op key val nxt) =
     (if op = INSERT then
        (case find_first (\<lambda>k. key_equal k key) tmpkeys of
           Some x \<Rightarrow>
             bnd (slot_read tmpvals x OutOfRange)
               (\<lambda>vs. Ok (tmpkeys, tmpvals[x := vs @ [val]]))
         | None \<Rightarrow>
             bnd (if slotuse h = 0 then Ok (tmpkeys @ [key], tmpvals @ [[val]])
                  else
                    (let target_pos =
                       (case find_last (\<lambda>k. key_greaterequal key k False) tmpkeys of
                          Some x \<Rightarrow> x + 1 | None \<Rightarrow> 0)
                     in bnd (vec_insert target_pos key tmpkeys)
                          (\<lambda>ks. bnd (vec_insert target_pos [val] tmpvals)
                             (\<lambda>vs. Ok (ks, vs)))))
               (\<lambda>(ks, vs).
                  if length vs \<noteq> unat (slotuse h) then Err AssertSlotuse else Ok (ks, vs)))
      else if op = DELETE then
        bnd (case find_first (\<lambda>k. key_equal k key) tmpkeys of
               Some x \<Rightarrow>
                 bnd (slot_read tmpvals x OutOfRange)
                   (\<lambda>vs. let vs' = filter (\<lambda>w. \<not> value_equal w val) vs in
                      if length vs' = 0 then
                        bnd (vec_erase x tmpkeys)
                          (\<lambda>ks. bnd (vec_erase x tmpvals) (\<lambda>vss. Ok (ks, vss)))
                      else Ok (tmpkeys, tmpvals[x := vs']))
             | None \<Rightarrow> Ok (tmpkeys, tmpvals))
          (\<lambda>(ks, vs).
             if length vs \<noteq> unat (slotuse h) then Err AssertSlotuse else Ok (ks, vs))
      else Ok (tmpkeys, tmpvals))"
| "leaf_apply_delta (tmpkeys, tmpvals) (SplitDelta h Kp pQ nxt) =
     (case find_first (\<lambda>k. key_greaterequal k Kp False) tmpkeys of
        Some i \<Rightarrow> Ok (vec_resize i Kp tmpkeys, vec_resize i [] tmpvals)
      | None \<Rightarrow> Ok (tmpkeys, tmpvals))"
| "leaf_apply_delta (tmpkeys, tmpvals) (MergeDelta h Kp on nxt) = Ok (tmpkeys, tmpvals)"
| "leaf_apply_delta (tmpkeys, tmpvals) (RemoveDelta h nxt) = Ok (tmpkeys, tmpvals)"
| "leaf_apply_delta (tmpkeys, tmpvals) (InnerNode h ks cs) = Ok (tmpkeys, tmpvals)"
| "leaf_apply_delta (tmpkeys, tmpvals) (LeafNode h ks vs) = Ok (tmpkeys, tmpvals)"
| "leaf_apply_delta (tmpkeys, tmpvals) (IndexEntryDelta h Kp Kq i pQ nxt) =
     Ok (tmpkeys, tmpvals)"

definition leaf_fake_consolidate ::
  "'k::linorder Node \<Rightarrow> ('k list \<times> ItemPointer list list) result" where
  "leaf_fake_consolidate new_delta =
     (case push_chain new_delta [] of
        LeafNode h slotkey slotdata # delta_chain \<Rightarrow>
          bnd (copy_base (unat (slotuse h)) slotkey slotdata NullDeref)
            (\<lambda>tmp. fold_result leaf_apply_delta tmp delta_chain)
      | _ \<Rightarrow> Err AssertChainTopNotLeaf)"

fun inner_apply_delta ::
  "'k::linorder list \<times> PidType list \<Rightarrow> 'k Node \<Rightarrow> ('k list \<times> PidType list) result" where
  "inner_apply_delta (tmpkeys, tmpchilds) (IndexEntryDelta h Kp Kq i pQ nxt) =
     (let pos = (case find_first (\<lambda>k. key_less Kp k False) tmpkeys of
                   Some p \<Rightarrow> p | None \<Rightarrow> length tmpkeys)
      in bnd (vec_insert pos Kp tmpkeys)
           (\<lambda>ks. bnd (vec_insert (pos + 1) pQ tmpchilds) (\<lambda>cs. Ok (ks, cs))))"
| "inner_apply_delta (tmpkeys, tmpchilds) (SplitDelta h Kp pQ nxt) =
     (case find_first (\<lambda>k. key_greaterequal k Kp False) tmpkeys of
        Some i \<Rightarrow> Ok (vec_resize i Kp tmpkeys, vec_resize (i + 1) 0 tmpchilds)
      | None \<Rightarrow> Ok (tmpkeys, tmpchilds))"
| "inner_apply_delta (tmpkeys, tmpchilds) (InnerNode h ks cs) = Ok (tmpkeys, tmpchilds)"
| "inner_apply_delta (tmpkeys, tmpchilds) (LeafNode h ks vs) = Ok (tmpkeys, tmpchilds)"
| "inner_apply_delta (tmpkeys, tmpchilds) (RecordDelta h op k v nxt) = Ok (tmpkeys, tmpchilds)"
| "inner_apply_delta (tmpkeys, tmpchilds) (RemoveDelta h nxt) = Ok (tmpkeys, tmpchilds)"
| "inner_apply_delta (tmpkeys, tmpchilds) (MergeDelta h Kp on nxt) = Ok (tmpkeys, tmpchilds)"

definition inner_fake_consolidate ::
  "'k::linorder Node \<Rightarrow> ('k list \<times> PidType list) result" where
  "inner_fake_consolidate new_delta =
     (case push_chain new_delta [] of
        InnerNode h slotkey childid # delta_chain \<Rightarrow>
          bnd (copy_base (unat (slotuse h)) slotkey childid OutOfRange)
            (\<lambda>(tmpkeys, tmpchilds).
               bnd (slot_read childid (unat (slotuse h)) OutOfRange)
                 (\<lambda>c. fold_result inner_apply_delta (tmpkeys, tmpchilds @ [c]) delta_chain))
      | _ \<Rightarrow> Err AssertChainTopNotInner)"

subsection \<open>The mapping table\<close>

text \<open>
  \<^verbatim>\<open>Node** mappingtable_1[MAPPING_TABLE_SIZE]\<close>: a first-tier entry is null (\<open>None\<close>) or a
  block of \<^verbatim>\<open>MAPPING_TABLE_SIZE\<close> slots, each a \<^verbatim>\<open>Node*\<close>. An index outside the first tier
  is outside the array.
\<close>

record 'k MappingTable =
  mappingtable_1 :: "int \<Rightarrow> (int \<Rightarrow> 'k Node option) option"
  nextPid :: nat

definition MappingTable_ctor :: "'k MappingTable" where
  "MappingTable_ctor = \<lparr> mappingtable_1 = (\<lambda>i. None), nextPid = 0 \<rparr>"

definition MappingTable_get :: "'k MappingTable \<Rightarrow> PidType \<Rightarrow> 'k Node option result" where
  "MappingTable_get mt p =
     (if p = NULL_PID then Ok None
      else
        let tier1_idx = GET_TIER1_INDEX p; tier2_idx = GET_TIER2_INDEX p in
        if tier1_idx < 0 \<or> MAPPING_TABLE_SIZE \<le> tier1_idx then Err OutOfRange
        else
          (case mappingtable_1 mt tier1_idx of
             None \<Rightarrow> Ok None
           | Some tier2 \<Rightarrow> Ok (tier2 tier2_idx)))"

text \<open>\<^verbatim>\<open>addr->pid = pid\<close>\<close>

definition with_pid :: "PidType \<Rightarrow> 'k Node \<Rightarrow> 'k Node" where
  "with_pid p node = map_hdr (\<lambda>h. h\<lparr>pid := Some p\<rparr>) node"

text \<open>
  \<^verbatim>\<open>set(pid, expected, addr)\<close>: the compare-and-swap of the slot. It returns whether it
  stored \<^verbatim>\<open>addr\<close>, whose \<^verbatim>\<open>pid\<close> it has assigned before.
\<close>

definition MappingTable_set ::
  "'k MappingTable \<Rightarrow> PidType \<Rightarrow> 'k Node option \<Rightarrow> 'k Node option
   \<Rightarrow> (bool \<times> 'k MappingTable) result" where
  "MappingTable_set mt p expected addr =
     (let addr' = map_option (with_pid p) addr;
          tier1_idx = GET_TIER1_INDEX p; tier2_idx = GET_TIER2_INDEX p in
      if tier1_idx < 0 \<or> MAPPING_TABLE_SIZE \<le> tier1_idx then Err OutOfRange
      else
        (case mappingtable_1 mt tier1_idx of
           None \<Rightarrow> Ok (False, mt)
         | Some tier2 \<Rightarrow>
             if tier2 tier2_idx = expected then
               Ok (True,
                   mt\<lparr>mappingtable_1 :=
                        (mappingtable_1 mt)(tier1_idx := Some (tier2(tier2_idx := addr')))\<rparr>)
             else Ok (False, mt)))"

text \<open>
  \<^verbatim>\<open>add(addr)\<close>: the next PID, the second-tier block allocated when absent, and the
  compare-and-swap of the slot against the value \<^verbatim>\<open>expectded2\<close> read just before.
\<close>

definition MappingTable_add ::
  "'k MappingTable \<Rightarrow> 'k Node option \<Rightarrow> (PidType \<times> 'k MappingTable) result" where
  "MappingTable_add mt addr =
     (let new_pid = int (nextPid mt);
          mt1 = mt\<lparr>nextPid := nextPid mt + 1\<rparr>;
          addr' = map_option (with_pid new_pid) addr;
          tier1_idx = GET_TIER1_INDEX new_pid; tier2_idx = GET_TIER2_INDEX new_pid in
      if tier1_idx < 0 \<or> MAPPING_TABLE_SIZE \<le> tier1_idx then Err OutOfRange
      else
        let tier2 = (case mappingtable_1 mt1 tier1_idx of
                       None \<Rightarrow> (\<lambda>i. None) | Some b \<Rightarrow> b);
            expectded2 = tier2 tier2_idx in
        if tier2 tier2_idx = expectded2 then
          Ok (new_pid,
              mt1\<lparr>mappingtable_1 :=
                    (mappingtable_1 mt1)(tier1_idx := Some (tier2(tier2_idx := addr')))\<rparr>)
        else
          Ok (NULL_PID, mt1\<lparr>mappingtable_1 := (mappingtable_1 mt1)(tier1_idx := Some tier2)\<rparr>))"

subsection \<open>The tree\<close>

text \<open>
  The members of \<^verbatim>\<open>BWTree\<close>. \<^verbatim>\<open>HasUniqueKeys\<close> is \<^verbatim>\<open>m_metadata->HasUniqueKeys()\<close>;
  \<^verbatim>\<open>sizeof_KeyType\<close> and \<^verbatim>\<open>sizeof_ValueType\<close> are the sizes of the template arguments, from
  which the static constants of the class follow; \<^verbatim>\<open>waste\<close> is the default-constructed
  \<^verbatim>\<open>KeyType waste\<close> that stands in the bounds marked infinite.
\<close>

record 'k BWTree =
  root :: PidType
  mapping_table :: "'k MappingTable"
  garbage_table :: "'k MappingTable"
  headleaf :: PidType
  HasUniqueKeys :: bool
  sizeof_KeyType :: nat
  sizeof_ValueType :: nat
  waste :: 'k

definition sizeof_PidType :: nat where
  "sizeof_PidType = 8"

definition leafslotmax :: "'k BWTree \<Rightarrow> nat" where
  "leafslotmax t = max 8 (BWTREE_NODE_SIZE div (sizeof_KeyType t + sizeof_ValueType t))"

definition innerslotmax :: "'k BWTree \<Rightarrow> nat" where
  "innerslotmax t = max 8 (BWTREE_NODE_SIZE div (sizeof_KeyType t + sizeof_PidType))"

definition minleafslots :: "'k BWTree \<Rightarrow> nat" where
  "minleafslots t = leafslotmax t div 2"

definition mininnerslots :: "'k BWTree \<Rightarrow> nat" where
  "mininnerslots t = innerslotmax t div 2"

definition need_split :: "'k BWTree \<Rightarrow> 'k Node \<Rightarrow> bool" where
  "need_split t node =
     (if is_leaf (hdr node) then leafslotmax t \<le> unat (slotuse (hdr node))
      else innerslotmax t \<le> unat (slotuse (hdr node)))"

definition need_merge :: "'k BWTree \<Rightarrow> 'k Node \<Rightarrow> bool" where
  "need_merge t node =
     (if is_leaf (hdr node) then unat (slotuse (hdr node)) \<le> minleafslots t
      else unat (slotuse (hdr node)) \<le> mininnerslots t)"

text \<open>The constructor: one empty leaf, both bounds infinite, is the root and the head leaf.\<close>

definition BWTree_ctor :: "bool \<Rightarrow> nat \<Rightarrow> nat \<Rightarrow> 'k \<Rightarrow> 'k BWTree result" where
  "BWTree_ctor unique ksize vsize w =
     (let addr = new_LeafNode NULL_PID w w True True in
      bnd (MappingTable_add MappingTable_ctor (Some addr))
        (\<lambda>(newpid, mt).
           if 0 \<le> newpid then
             Ok \<lparr> root = newpid, mapping_table = mt, garbage_table = MappingTable_ctor,
                  headleaf = newpid, HasUniqueKeys = unique, sizeof_KeyType = ksize,
                  sizeof_ValueType = vsize, waste = w \<rparr>
           else Err AssertInitialLeaf))"

subsection \<open>\<^verbatim>\<open>search\<close>\<close>

text \<open>A \<^verbatim>\<open>std::stack<PidType>\<close> is a list, its top first.\<close>

definition top :: "PidType list \<Rightarrow> PidType result" where
  "top path = (case path of [] \<Rightarrow> Err EmptyStack | p # _ \<Rightarrow> Ok p)"

definition pop :: "PidType list \<Rightarrow> PidType list result" where
  "pop path = (case path of [] \<Rightarrow> Err EmptyStack | _ # rest \<Rightarrow> Ok rest)"

text \<open>\<^verbatim>\<open>node->pid\<close>\<close>

definition read_pid :: "'k Node \<Rightarrow> PidType result" where
  "read_pid node = (case pid (hdr node) of None \<Rightarrow> Err UninitPid | Some p \<Rightarrow> Ok p)"

text \<open>
  The helper \<^verbatim>\<open>search(Node* node, KeyType key, std::stack<PidType>& path)\<close>: it returns its
  result and the path. Each call takes one unit of fuel.
\<close>

fun search_node ::
  "nat \<Rightarrow> 'k::linorder MappingTable \<Rightarrow> 'k Node \<Rightarrow> 'k \<Rightarrow> PidType list
   \<Rightarrow> (PidType \<times> PidType list) result" where
  "search_node 0 mt node key path = NoReturn"
| "search_node (Suc n) mt (LeafNode h ks vs) key path =
     bnd (read_pid (LeafNode h ks vs)) (\<lambda>p. Ok (p, path))"
| "search_node (Suc n) mt (RecordDelta h op k v nxt) key path =
     bnd (read_pid (RecordDelta h op k v nxt)) (\<lambda>p. Ok (p, path))"
| "search_node (Suc n) mt (IndexEntryDelta h Kp Kq inf_Kq pQ nxt) key path =
     (if key_greaterequal key Kp False \<and> key_less key Kq inf_Kq then
        bnd (MappingTable_get mt pQ)
          (\<lambda>node. case node of
               None \<Rightarrow> Ok (- 1, path)
             | Some node' \<Rightarrow> search_node n mt node' key (pQ # path))
      else search_node n mt nxt key path)"
| "search_node (Suc n) mt (RemoveDelta h nxt) key path =
     bnd (pop path)
       (\<lambda>path'. if path' = [] then Ok (- 1, path')
          else
            bnd (top path')
              (\<lambda>p. bnd (MappingTable_get mt p)
                 (\<lambda>node. case node of
                      None \<Rightarrow> Ok (- 1, path')
                    | Some node' \<Rightarrow> search_node n mt node' key path')))"
| "search_node (Suc n) mt (MergeDelta h Kp orignal_node nxt) key path =
     (if key_greaterequal key Kp False then
        (case orignal_node of
           None \<Rightarrow> Ok (- 1, path)
         | Some node' \<Rightarrow> search_node n mt node' key path)
      else search_node n mt nxt key path)"
| "search_node (Suc n) mt (SplitDelta h Kp pQ nxt) key path =
     (if key_greaterequal key Kp False then
        bnd (MappingTable_get mt pQ)
          (\<lambda>node. case node of
               None \<Rightarrow> Ok (- 1, path)
             | Some node' \<Rightarrow>
                 bnd (pop path) (\<lambda>path'. search_node n mt node' key (pQ # path')))
      else search_node n mt nxt key path)"
| "search_node (Suc n) mt (InnerNode h slotkey childid) key path =
     (if slotuse h = 0 then
        bnd (slot_read childid 0 OutOfRange)
          (\<lambda>p. if p = NULL_PID then Ok (- 1, path)
             else
               bnd (MappingTable_get mt p)
                 (\<lambda>node. case node of
                      None \<Rightarrow> Ok (- 1, p # path)
                    | Some node' \<Rightarrow> search_node n mt node' key (p # path)))
      else
        bnd (find_slot (\<lambda>k. key_less key k False) slotkey 0 (unat (slotuse h)))
          (\<lambda>hit. let i = (case hit of None \<Rightarrow> unat (slotuse h) | Some j \<Rightarrow> j) in
             bnd (slot_read childid i OutOfRange)
               (\<lambda>p. bnd (MappingTable_get mt p)
                  (\<lambda>node. case node of
                       None \<Rightarrow> Ok (- 1, path)
                     | Some node' \<Rightarrow> search_node n mt node' key (p # path)))))"

definition search :: "nat \<Rightarrow> 'k::linorder BWTree \<Rightarrow> PidType \<Rightarrow> 'k \<Rightarrow> PidType list result" where
  "search n t p key =
     bnd (MappingTable_get (mapping_table t) p)
       (\<lambda>node. case node of
            None \<Rightarrow> Ok []
          | Some node' \<Rightarrow>
              bnd (search_node n (mapping_table t) node' key [p])
                (\<lambda>(res, path). if res = - 1 then Ok [] else Ok path))"

subsection \<open>\<^verbatim>\<open>get_value\<close>\<close>

text \<open>
  The leaf case of \<^verbatim>\<open>get_value\<close>: every slot below \<^verbatim>\<open>slotuse\<close> whose key matches gives its
  values that are not in \<^verbatim>\<open>delset\<close>, in their order.
\<close>

function get_value_leaf ::
  "'k::linorder list \<Rightarrow> ItemPointer list list \<Rightarrow> 'k \<Rightarrow> DelSet \<Rightarrow> nat \<Rightarrow> nat
   \<Rightarrow> ItemPointer list \<Rightarrow> ItemPointer list result" where
  "get_value_leaf slotkey slotdata key delset i n res =
     (if i < n then
        bnd (slot_read slotkey i OutOfRange)
          (\<lambda>k. if key_equal k key then
                  bnd (slot_read slotdata i NullDeref)
                    (\<lambda>vals. get_value_leaf slotkey slotdata key delset (Suc i) n
                               (res @ filter (\<lambda>v. v \<notin> delset) vals))
                else get_value_leaf slotkey slotdata key delset (Suc i) n res)
      else Ok res)"
  by pat_completeness auto
termination
  by (relation "measure (\<lambda>(slotkey, slotdata, key, delset, i, n, res). n - i)") auto

declare get_value_leaf.simps [simp del]

text \<open>
  \<^verbatim>\<open>get_value\<close> and its loop over \<^verbatim>\<open>next\<close>, with \<^verbatim>\<open>delset\<close> and \<^verbatim>\<open>result\<close>. After a remove delta
  the recursive call returns and the loop goes on at the same node; in the \<^verbatim>\<open>default\<close>
  branch too \<^verbatim>\<open>next\<close> stays.
\<close>

fun get_value ::
  "nat \<Rightarrow> 'k::linorder BWTree \<Rightarrow> 'k \<Rightarrow> ItemPointer list \<Rightarrow> ItemPointer list result"
and get_value_loop ::
  "nat \<Rightarrow> 'k BWTree \<Rightarrow> 'k \<Rightarrow> 'k Node option \<Rightarrow> DelSet \<Rightarrow> ItemPointer list
   \<Rightarrow> ItemPointer list result" where
  "get_value 0 t key res = NoReturn"
| "get_value (Suc n) t key res =
     bnd (search n t (root t) key)
       (\<lambda>path. bnd (top path)
          (\<lambda>target_node. bnd (MappingTable_get (mapping_table t) target_node)
             (\<lambda>nxt. case nxt of
                  None \<Rightarrow> Err NullDeref
                | Some node \<Rightarrow>
                    if \<not> is_leaf (hdr node) then Ok res
                    else get_value_loop n t key (Some node) {} res)))"
| "get_value_loop 0 t key nxt delset res = NoReturn"
| "get_value_loop (Suc n) t key None delset res = Ok res"
| "get_value_loop (Suc n) t key (Some (RecordDelta h op k v nxt)) delset res =
     (if key_equal k key then
        (if op = INSERT then
           (if v \<notin> delset then get_value_loop n t key (Some nxt) delset (res @ [v])
            else get_value_loop n t key (Some nxt) delset res)
         else if op = DELETE then get_value_loop n t key (Some nxt) (insert v delset) res
         else get_value_loop n t key (Some nxt) delset res)
      else get_value_loop n t key (Some nxt) delset res)"
| "get_value_loop (Suc n) t key (Some (LeafNode h slotkey slotdata)) delset res =
     get_value_leaf slotkey slotdata key delset 0 (unat (slotuse h)) res"
| "get_value_loop (Suc n) t key (Some (SplitDelta h Kp pQ nxt)) delset res =
     (if key_greaterequal key Kp False then
        bnd (MappingTable_get (mapping_table t) pQ)
          (\<lambda>node. get_value_loop n t key node delset res)
      else get_value_loop n t key (Some nxt) delset res)"
| "get_value_loop (Suc n) t key (Some (MergeDelta h Kp orignal_node nxt)) delset res =
     (if key_greaterequal key Kp False then get_value_loop n t key orignal_node delset res
      else get_value_loop n t key (Some nxt) delset res)"
| "get_value_loop (Suc n) t key (Some (RemoveDelta h nxt)) delset res =
     bnd (get_value n t key [])
       (\<lambda>res'. get_value_loop n t key (Some (RemoveDelta h nxt)) delset res')"
| "get_value_loop (Suc n) t key (Some (InnerNode h ks cs)) delset res =
     get_value_loop n t key (Some (InnerNode h ks cs)) delset res"
| "get_value_loop (Suc n) t key (Some (IndexEntryDelta h Kp Kq i pQ nxt)) delset res =
     get_value_loop n t key (Some (IndexEntryDelta h Kp Kq i pQ nxt)) delset res"

subsection \<open>\<^verbatim>\<open>consolidate\<close>\<close>

text \<open>\<^verbatim>\<open>while (garbage_table.add(orinode) == NULL_PID) ;\<close>\<close>

fun garbage_add :: "nat \<Rightarrow> 'k MappingTable \<Rightarrow> 'k Node \<Rightarrow> 'k MappingTable result" where
  "garbage_add 0 gt orinode = NoReturn"
| "garbage_add (Suc n) gt orinode =
     bnd (MappingTable_add gt (Some orinode))
       (\<lambda>(p, gt'). if p = NULL_PID then garbage_add n gt' orinode else Ok gt')"

text \<open>
  The body of the loop of \<^verbatim>\<open>consolidate\<close> up to the compare-and-swap: the fresh base node
  \<^verbatim>\<open>new_leaf\<close> or \<^verbatim>\<open>new_inner\<close>, filled from the logical consolidation of \<^verbatim>\<open>orinode\<close>.
\<close>

definition consolidated_node :: "'k::linorder BWTree \<Rightarrow> 'k Node \<Rightarrow> 'k Node result" where
  "consolidated_node t orinode =
     (if is_leaf (hdr orinode) then
        bnd (leaf_fake_consolidate orinode)
          (\<lambda>(keys, vals).
             if length keys \<noteq> length vals \<or> leafslotmax t < length keys
             then Err AssertLeafSize
             else
               Ok (LeafNode
                     ((Node_ctor 0 (next_leafnode (hdr orinode)) True
                         (low_key (hdr orinode)) (high_key (hdr orinode))
                         (inf_lowkey (hdr orinode)) (inf_highkey (hdr orinode)))
                      \<lparr>slotuse := of_nat (length keys)\<rparr>)
                     keys vals))
      else
        bnd (inner_fake_consolidate orinode)
          (\<lambda>(keys, childs).
             if length keys + 1 \<noteq> length childs \<or> innerslotmax t < length keys
             then Err AssertInnerSize
             else
               Ok (InnerNode
                     ((Node_ctor 0 NULL_PID False
                         (low_key (hdr orinode)) (high_key (hdr orinode))
                         (inf_lowkey (hdr orinode)) (inf_highkey (hdr orinode)))
                      \<lparr>slotuse := of_nat (length keys)\<rparr>)
                     keys childs)))"

text \<open>
  The loop of \<^verbatim>\<open>consolidate\<close> over \<^verbatim>\<open>orinode\<close>. It returns the node pointer (\<open>None\<close> is the
  \<^verbatim>\<open>nullptr\<close> of "invalid split check") and the tree.
\<close>

fun consolidate_loop ::
  "nat \<Rightarrow> 'k::linorder BWTree \<Rightarrow> PidType \<Rightarrow> 'k Node \<Rightarrow> ('k Node option \<times> 'k BWTree) result"
where
  "consolidate_loop 0 t p orinode = NoReturn"
| "consolidate_loop (Suc n) t p orinode =
     (if MAX_DELTA_CHAIN_LEN < delta_list_len (hdr orinode) then
        bnd (consolidated_node t orinode)
          (\<lambda>new_node.
             bnd (MappingTable_set (mapping_table t) p (Some orinode) (Some new_node))
               (\<lambda>(ok, mt).
                  if ok then
                    bnd (garbage_add n (garbage_table t) orinode)
                      (\<lambda>gt. Ok (Some (with_pid p new_node),
                                 t\<lparr>mapping_table := mt, garbage_table := gt\<rparr>))
                  else
                    bnd (MappingTable_get (mapping_table t) p)
                      (\<lambda>node. case node of
                           None \<Rightarrow> Err NullDeref
                         | Some orinode' \<Rightarrow>
                             if need_split t orinode' then Ok (None, t)
                             else consolidate_loop n t p orinode')))
      else Ok (Some orinode, t))"

definition consolidate ::
  "nat \<Rightarrow> 'k::linorder BWTree \<Rightarrow> PidType \<Rightarrow> ('k Node option \<times> 'k BWTree) result" where
  "consolidate n t p =
     bnd (MappingTable_get (mapping_table t) p)
       (\<lambda>node. case node of
            None \<Rightarrow> Err NullDeref
          | Some orinode \<Rightarrow>
              if need_split t orinode then Err AssertInvalidSplit
              else consolidate_loop n t p orinode)"

subsection \<open>Splitting: \<^verbatim>\<open>create_leaf\<close>, \<^verbatim>\<open>create_inner\<close>, \<^verbatim>\<open>create_root\<close>, \<^verbatim>\<open>find_parent\<close>, \<^verbatim>\<open>split\<close>\<close>

text \<open>
  \<^verbatim>\<open>for (i = orisize / 2; i < orisize; i++) dst[i - orisize / 2 + d] = src[i + d]\<close>: the entries
  \<open>orisize div 2 + d\<close> up to \<open>orisize + d\<close> of the vector, which must have them; the array
  they go to has \<open>cap\<close> entries.
\<close>

definition upper_half :: "nat \<Rightarrow> nat \<Rightarrow> nat \<Rightarrow> 'a list \<Rightarrow> 'a list result" where
  "upper_half orisize d cap src =
     (if orisize div 2 < orisize \<and> length src < orisize + d then Err OutOfRange
      else if cap < orisize - orisize div 2 + d then Err OutOfRange
      else Ok (drop (orisize div 2 + d) (take (orisize + d) src)))"

text \<open>\<^verbatim>\<open>create_leaf\<close> returns the new PID, \<^verbatim>\<open>*pivotal\<close> and the tree.\<close>

definition create_leaf ::
  "'k::linorder BWTree \<Rightarrow> 'k Node \<Rightarrow> (PidType \<times> 'k \<times> 'k BWTree) result" where
  "create_leaf t check_split_node =
     (let h = Node_ctor 0 (next_leafnode (hdr check_split_node)) True (waste t)
                (high_key (hdr check_split_node)) False (inf_highkey (hdr check_split_node)) in
      bnd (leaf_fake_consolidate check_split_node)
        (\<lambda>res. let orisize = unat (slotuse (hdr check_split_node)) in
           bnd (upper_half orisize 0 (leafslotmax t + 1) (fst res))
             (\<lambda>slotkey. bnd (upper_half orisize 0 (leafslotmax t + 1) (snd res))
                (\<lambda>slotdata. bnd (slot_read slotkey 0 OutOfRange)
                   (\<lambda>k0.
                      let new_leaf =
                        LeafNode (h\<lparr>low_key := k0, slotuse := of_nat ((orisize + 1) div 2)\<rparr>)
                          slotkey slotdata
                      in bnd (MappingTable_add (mapping_table t) (Some new_leaf))
                           (\<lambda>(new_leaf_pid, mt).
                              if new_leaf_pid = NULL_PID then Err AssertAddPid
                              else Ok (new_leaf_pid, k0, t\<lparr>mapping_table := mt\<rparr>)))))))"

definition create_inner ::
  "'k::linorder BWTree \<Rightarrow> 'k Node \<Rightarrow> (PidType \<times> 'k \<times> 'k BWTree) result" where
  "create_inner t check_split_node =
     (let h = Node_ctor 0 NULL_PID False (waste t)
                (high_key (hdr check_split_node)) False (inf_highkey (hdr check_split_node)) in
      bnd (inner_fake_consolidate check_split_node)
        (\<lambda>res. let orisize = unat (slotuse (hdr check_split_node)) in
           bnd (upper_half orisize 0 (innerslotmax t + 1) (fst res))
             (\<lambda>slotkey. bnd (upper_half orisize 1 (innerslotmax t + 2) (snd res))
                (\<lambda>childs. bnd (slot_read slotkey 0 OutOfRange)
                   (\<lambda>k0.
                      let new_inner =
                        InnerNode (h\<lparr>low_key := k0, slotuse := of_nat ((orisize + 1) div 2)\<rparr>)
                          slotkey (NULL_PID # childs)
                      in bnd (MappingTable_add (mapping_table t) (Some new_inner))
                           (\<lambda>(new_inner_pid, mt).
                              if new_inner_pid = NULL_PID then Err AssertAddPid
                              else Ok (new_inner_pid, k0, t\<lparr>mapping_table := mt\<rparr>)))))))"

text \<open>
  \<^verbatim>\<open>while (!compare_exchange(&root, &cur_root, new_root_pid)) assert(i++ < 5);\<close> A failed
  exchange loads \<^verbatim>\<open>root\<close> into \<^verbatim>\<open>cur_root\<close>.
\<close>

function create_root_cas :: "PidType \<Rightarrow> PidType \<Rightarrow> PidType \<Rightarrow> nat \<Rightarrow> PidType result" where
  "create_root_cas rt cur_root new_root_pid i =
     (if rt = cur_root then Ok new_root_pid
      else if i < 5 then create_root_cas rt rt new_root_pid (i + 1)
      else Err AssertRootCas)"
  by pat_completeness auto
termination
  by (relation "measure (\<lambda>(rt, cur_root, new_root_pid, i). 5 - i)") auto

declare create_root_cas.simps [simp del]

definition create_root ::
  "'k::linorder BWTree \<Rightarrow> PidType \<Rightarrow> PidType \<Rightarrow> 'k \<Rightarrow> 'k BWTree result" where
  "create_root t cur_root new_node_pid pivotal =
     (let new_root_node =
        InnerNode ((Node_ctor 0 NULL_PID False (waste t) (waste t) True True)\<lparr>slotuse := 1\<rparr>)
          [pivotal] [cur_root, new_node_pid]
      in bnd (MappingTable_add (mapping_table t) (Some new_root_node))
           (\<lambda>(new_root_pid, mt).
              if new_root_pid = NULL_PID then Err AssertAddPid
              else
                bnd (create_root_cas new_root_pid cur_root new_root_pid 0)
                  (\<lambda>rt. Ok (t\<lparr>mapping_table := mt, root := rt\<rparr>))))"

text \<open>
  \<^verbatim>\<open>for (i = visited_nodes.size() - 1; i >= 0; i--) { assert(visited_nodes[i] == path.top());
  path.pop(); }\<close>, over the visited nodes from the last to the first.
\<close>

fun pop_visited :: "PidType list \<Rightarrow> PidType list \<Rightarrow> PidType list result" where
  "pop_visited [] path = Ok path"
| "pop_visited (v # vs) path =
     bnd (top path)
       (\<lambda>p. if v \<noteq> p then Err AssertChildrenChanged
          else bnd (pop path) (\<lambda>path'. pop_visited vs path'))"

fun find_parent_loop ::
  "nat \<Rightarrow> 'k::linorder BWTree \<Rightarrow> 'k \<Rightarrow> PidType list \<Rightarrow> PidType list \<Rightarrow> 'k Node
   \<Rightarrow> ('k Node \<times> PidType list) result" where
  "find_parent_loop 0 t key path visited_nodes parent_node = NoReturn"
| "find_parent_loop (Suc n) t key path visited_nodes parent_node =
     (if \<not> key_in_node key parent_node then
        bnd (search n t (root t) key)
          (\<lambda>path1. bnd (pop_visited (rev visited_nodes) path1)
             (\<lambda>path2. bnd (top path2)
                (\<lambda>parent_pid. bnd (MappingTable_get (mapping_table t) parent_pid)
                   (\<lambda>node. case node of
                        None \<Rightarrow> Err NullDeref
                      | Some parent_node' \<Rightarrow>
                          find_parent_loop n t key path2 visited_nodes parent_node'))))
      else Ok (parent_node, path))"

definition find_parent ::
  "nat \<Rightarrow> 'k::linorder BWTree \<Rightarrow> 'k \<Rightarrow> PidType list \<Rightarrow> PidType list
   \<Rightarrow> ('k Node \<times> PidType list) result" where
  "find_parent n t key path visited_nodes =
     bnd (top path)
       (\<lambda>parent_pid. bnd (MappingTable_get (mapping_table t) parent_pid)
          (\<lambda>node. case node of
               None \<Rightarrow> Err NullDeref
             | Some parent_node \<Rightarrow> find_parent_loop n t key path visited_nodes parent_node))"

text \<open>
  Step 3 of \<^verbatim>\<open>split\<close>, the loop \<^verbatim>\<open>while (redo)\<close>: it returns \<^verbatim>\<open>check_split_pid\<close>, the path and
  the tree.
\<close>

fun split_redo ::
  "nat \<Rightarrow> 'k::linorder BWTree \<Rightarrow> 'k \<Rightarrow> PidType list \<Rightarrow> PidType list \<Rightarrow> 'k \<Rightarrow> PidType
   \<Rightarrow> 'k Node \<Rightarrow> (PidType \<times> PidType list \<times> 'k BWTree) result" where
  "split_redo 0 t key path visited_nodes Kp pQ new_node = NoReturn"
| "split_redo (Suc n) t key path visited_nodes Kp pQ new_node =
     bnd (find_parent n t key path visited_nodes)
       (\<lambda>(check_split_node, path').
          bnd (read_pid check_split_node)
            (\<lambda>check_split_pid.
               let new_indexEntryDelta =
                 new_IndexEntryDelta check_split_node Kp (high_key (hdr new_node))
                   (inf_highkey (hdr new_node)) pQ (next_leafnode (hdr check_split_node))
                   (low_key (hdr check_split_node)) (high_key (hdr check_split_node))
                   (inf_lowkey (hdr check_split_node)) (inf_highkey (hdr check_split_node))
               in bnd (MappingTable_set (mapping_table t) check_split_pid
                         (Some check_split_node) (Some new_indexEntryDelta))
                    (\<lambda>(ok, mt).
                       if ok then
                         bnd (pop path')
                           (\<lambda>path''. Ok (check_split_pid, path'', t\<lparr>mapping_table := mt\<rparr>))
                       else split_redo n t key path' visited_nodes Kp pQ new_node)))"

text \<open>The loop \<^verbatim>\<open>while (check_split_node->need_split())\<close> of \<^verbatim>\<open>split\<close>.\<close>

fun split_loop ::
  "nat \<Rightarrow> 'k::linorder BWTree \<Rightarrow> 'k \<Rightarrow> PidType list \<Rightarrow> PidType list \<Rightarrow> PidType \<Rightarrow> 'k Node
   \<Rightarrow> 'k BWTree result" where
  "split_loop 0 t key path visited_nodes check_split_pid check_split_node = NoReturn"
| "split_loop (Suc n) t key path visited_nodes check_split_pid check_split_node =
     (if need_split t check_split_node then
        bnd (if is_leaf (hdr check_split_node) then create_leaf t check_split_node
             else create_inner t check_split_node)
          (\<lambda>(new_node_pid, pivotal, t1).
             bnd (MappingTable_get (mapping_table t1) new_node_pid)
               (\<lambda>node. case node of
                    None \<Rightarrow> Err NullDeref
                  | Some new_node \<Rightarrow>
                      let new_split =
                        new_SplitDelta check_split_node pivotal new_node_pid new_node_pid
                          (low_key (hdr check_split_node)) (low_key (hdr new_node))
                          (inf_lowkey (hdr check_split_node)) False
                      in
                      bnd (MappingTable_set (mapping_table t1) check_split_pid
                             (Some check_split_node) (Some new_split))
                        (\<lambda>(ok, mt2).
                           if \<not> ok then
                             bnd (MappingTable_get mt2 new_node_pid)
                               (\<lambda>old_ptr. bnd (MappingTable_set mt2 new_node_pid old_ptr None)
                                  (\<lambda>(ok', mt3).
                                     if \<not> ok' then Err AssertSplitCleanup
                                     else
                                       bnd (MappingTable_get mt3 check_split_pid)
                                         (\<lambda>node'. case node' of
                                              None \<Rightarrow> Err NullDeref
                                            | Some check_split_node' \<Rightarrow>
                                                split_loop n (t1\<lparr>mapping_table := mt3\<rparr>) key
                                                  path visited_nodes check_split_pid
                                                  check_split_node')))
                           else
                             let visited_nodes' =
                               visited_nodes @
                                 [if key_greaterequal key pivotal False then new_node_pid
                                  else check_split_pid]
                             in
                             bnd (consolidate n (t1\<lparr>mapping_table := mt2\<rparr>) check_split_pid)
                               (\<lambda>(_, t3).
                                  if path = [] then
                                    create_root t3 check_split_pid new_node_pid pivotal
                                  else
                                    bnd (split_redo n t3 key path visited_nodes' pivotal
                                           new_node_pid new_node)
                                      (\<lambda>(check_split_pid', path', t4).
                                         bnd (MappingTable_get (mapping_table t4)
                                                check_split_pid')
                                           (\<lambda>node''. case node'' of
                                                None \<Rightarrow> Err NullDeref
                                              | Some check_split_node'' \<Rightarrow>
                                                  if \<not> need_split t4 check_split_node'' then
                                                    bnd (consolidate n t4 check_split_pid')
                                                      (\<lambda>(_, t5). Ok t5)
                                                  else
                                                    split_loop n t4 key path' visited_nodes'
                                                      check_split_pid'
                                                      check_split_node''))))))
      else Ok t)"

definition split :: "nat \<Rightarrow> 'k::linorder BWTree \<Rightarrow> 'k \<Rightarrow> 'k BWTree result" where
  "split n t key =
     bnd (search n t (root t) key)
       (\<lambda>path. bnd (top path)
          (\<lambda>check_split_pid. bnd (pop path)
             (\<lambda>path'. bnd (MappingTable_get (mapping_table t) check_split_pid)
                (\<lambda>node. case node of
                     None \<Rightarrow> Err NullDeref
                   | Some check_split_node \<Rightarrow>
                       split_loop n t key path' [] check_split_pid check_split_node))))"

subsection \<open>\<^verbatim>\<open>insert_entry\<close> and \<^verbatim>\<open>delete_entry\<close>\<close>

text \<open>
  The record delta that \<^verbatim>\<open>insert_entry\<close> builds on \<^verbatim>\<open>basic_node\<close>, after its assignments to
  \<^verbatim>\<open>pid\<close>, \<^verbatim>\<open>slotuse\<close>, \<^verbatim>\<open>high_key\<close> and \<^verbatim>\<open>low_key\<close>.
\<close>

definition insert_delta ::
  "PidType \<Rightarrow> 'k Node \<Rightarrow> 'k \<Rightarrow> ItemPointer \<Rightarrow> bool \<Rightarrow> 'k Node" where
  "insert_delta basic_pid basic_node key val key_dup =
     map_hdr
       (\<lambda>h. h\<lparr>pid := Some basic_pid,
               slotuse := (if \<not> key_dup then slotuse (hdr basic_node) + 1 else slotuse h),
               high_key := high_key (hdr basic_node),
               low_key := low_key (hdr basic_node)\<rparr>)
       (new_RecordDelta basic_node INSERT key val (next_leafnode (hdr basic_node))
          (low_key (hdr basic_node)) (high_key (hdr basic_node))
          (inf_lowkey (hdr basic_node)) (inf_highkey (hdr basic_node)))"

text \<open>
  \<^verbatim>\<open>insert_entry\<close>: the loop \<^verbatim>\<open>while (redo)\<close>; each turn takes one unit of fuel. The result
  is the return value and the tree.
\<close>

fun insert_entry ::
  "nat \<Rightarrow> 'k::linorder BWTree \<Rightarrow> 'k \<Rightarrow> ItemPointer \<Rightarrow> (bool \<times> 'k BWTree) result" where
  "insert_entry 0 t key val = NoReturn"
| "insert_entry (Suc n) t key val =
     bnd (split n t key)
       (\<lambda>t1. bnd (search n t1 (root t1) key)
          (\<lambda>path. bnd (top path)
             (\<lambda>basic_pid. bnd (consolidate n t1 basic_pid)
                (\<lambda>(node, t2). case node of
                     None \<Rightarrow> insert_entry n t2 key val
                   | Some basic_node \<Rightarrow>
                       if \<not> key_in_node key basic_node then insert_entry n t2 key val
                       else
                         bnd (key_is_in key (Some basic_node) {})
                           (\<lambda>key_dup.
                              if HasUniqueKeys t2 \<and> key_dup then Ok (False, t2)
                              else
                                bnd (MappingTable_set (mapping_table t2) basic_pid
                                       (Some basic_node)
                                       (Some (insert_delta basic_pid basic_node key val
                                                key_dup)))
                                  (\<lambda>(ok, mt).
                                     if \<not> ok then insert_entry n t2 key val
                                     else Ok (True, t2\<lparr>mapping_table := mt\<rparr>)))))))"

text \<open>
  The record delta that \<^verbatim>\<open>append_delete\<close> builds on \<^verbatim>\<open>basic_node\<close>, with \<^verbatim>\<open>slotuse\<close> one less
  when \<^verbatim>\<open>deletekey\<close> holds.
\<close>

definition delete_delta :: "'k Node \<Rightarrow> 'k \<Rightarrow> ItemPointer \<Rightarrow> bool \<Rightarrow> 'k Node" where
  "delete_delta basic_node key val deletekey =
     map_hdr (\<lambda>h. if deletekey then h\<lparr>slotuse := slotuse h - 1\<rparr> else h)
       (new_RecordDelta basic_node DELETE key val (next_leafnode (hdr basic_node))
          (low_key (hdr basic_node)) (high_key (hdr basic_node))
          (inf_lowkey (hdr basic_node)) (inf_highkey (hdr basic_node)))"

definition append_delete ::
  "'k::linorder BWTree \<Rightarrow> 'k Node \<Rightarrow> 'k \<Rightarrow> ItemPointer \<Rightarrow> bool \<Rightarrow> (bool \<times> 'k BWTree) result"
where
  "append_delete t basic_node key val deletekey =
     bnd (read_pid basic_node)
       (\<lambda>p. bnd (MappingTable_set (mapping_table t) p (Some basic_node)
                   (Some (delete_delta basic_node key val deletekey)))
          (\<lambda>(ok, mt). if ok then Ok (True, t\<lparr>mapping_table := mt\<rparr>) else Ok (False, t)))"

fun delete_entry ::
  "nat \<Rightarrow> 'k::linorder BWTree \<Rightarrow> 'k \<Rightarrow> ItemPointer \<Rightarrow> (bool \<times> 'k BWTree) result" where
  "delete_entry 0 t key val = NoReturn"
| "delete_entry (Suc n) t key val =
     bnd (split n t key)
       (\<lambda>t1. bnd (search n t1 (root t1) key)
          (\<lambda>path. bnd (top path)
             (\<lambda>basic_pid. bnd (pop path)
                (\<lambda>_. bnd (consolidate n t1 basic_pid)
                   (\<lambda>(node, t2). case node of
                        None \<Rightarrow> Err NullDeref
                      | Some basic_node \<Rightarrow>
                          if \<not> key_in_node key basic_node then delete_entry n t2 key val
                          else
                            bnd (count_pair key val (Some basic_node))
                              (\<lambda>tv_count_pair.
                                 if snd tv_count_pair = 0 then Ok (False, t2)
                                 else if fst tv_count_pair < snd tv_count_pair
                                 then Err AssertCountPairOrder
                                 else
                                   bnd (append_delete t2 basic_node key val
                                          (snd tv_count_pair = fst tv_count_pair))
                                     (\<lambda>(ok, t3).
                                        if \<not> ok then delete_entry n t3 key val
                                        else Ok (True, t3))))))))"

subsection \<open>\<^verbatim>\<open>scan_all\<close> and \<^verbatim>\<open>scan\<close>\<close>

fun scan_all_loop ::
  "nat \<Rightarrow> 'k::linorder BWTree \<Rightarrow> 'k Node option \<Rightarrow> ItemPointer list \<Rightarrow> ItemPointer list result"
where
  "scan_all_loop 0 t node v = NoReturn"
| "scan_all_loop (Suc n) t None v = Ok v"
| "scan_all_loop (Suc n) t (Some node) v =
     bnd (leaf_fake_consolidate node)
       (\<lambda>all_key_value_pair.
          bnd (MappingTable_get (mapping_table t) (next_leafnode (hdr node)))
            (\<lambda>node'. scan_all_loop n t node' (v @ concat (snd all_key_value_pair))))"

definition scan_all ::
  "nat \<Rightarrow> 'k::linorder BWTree \<Rightarrow> ItemPointer list \<Rightarrow> ItemPointer list result" where
  "scan_all n t v =
     bnd (MappingTable_get (mapping_table t) (headleaf t)) (\<lambda>node. scan_all_loop n t node v)"

fun scan_loop ::
  "nat \<Rightarrow> 'k::linorder BWTree \<Rightarrow> 'k Node option \<Rightarrow> 'k list \<Rightarrow> ItemPointer list list
   \<Rightarrow> ('k list \<times> ItemPointer list list) result" where
  "scan_loop 0 t node keys_result values_result = NoReturn"
| "scan_loop (Suc n) t None keys_result values_result = Ok (keys_result, values_result)"
| "scan_loop (Suc n) t (Some node) keys_result values_result =
     bnd (leaf_fake_consolidate node)
       (\<lambda>(keys, vals).
          bnd (MappingTable_get (mapping_table t) (next_leafnode (hdr node)))
            (\<lambda>node'. scan_loop n t node' (keys_result @ keys) (values_result @ vals)))"

definition scan ::
  "nat \<Rightarrow> 'k::linorder BWTree \<Rightarrow> 'k list \<Rightarrow> ItemPointer list list
   \<Rightarrow> ('k list \<times> ItemPointer list list) result" where
  "scan n t keys_result values_result =
     bnd (MappingTable_get (mapping_table t) (headleaf t))
       (\<lambda>node. scan_loop n t node keys_result values_result)"

subsection \<open>The target of a write\<close>

text \<open>
  The target leaf chain of one turn of the loop of \<^verbatim>\<open>insert_entry\<close> or \<^verbatim>\<open>delete_entry\<close>: after
  \<^verbatim>\<open>split\<close>, \<^verbatim>\<open>search\<close> and \<^verbatim>\<open>consolidate\<close>, the head \<^verbatim>\<open>basic_node\<close> of the chain at \<^verbatim>\<open>basic_pid\<close>,
  the top of the path, whose key range has the key; \<open>t2\<close> is the tree then.
\<close>

definition write_target ::
  "nat \<Rightarrow> 'k::linorder BWTree \<Rightarrow> 'k \<Rightarrow> PidType \<Rightarrow> 'k Node \<Rightarrow> 'k BWTree \<Rightarrow> bool" where
  "write_target m t key basic_pid basic_node t2 \<longleftrightarrow>
     (\<exists>t1 path. split m t key = Ok t1
        \<and> search m t1 (root t1) key = Ok (basic_pid # path)
        \<and> consolidate m t1 basic_pid = Ok (Some basic_node, t2)
        \<and> key_in_node key basic_node)"

subsection \<open>The reader path in the words of the specification\<close>

text \<open>
  The values visible for a key in a leaf chain, as the specification describes the reader:
  the chain is read from the head to the base with a set of tombstones; an \<^verbatim>\<open>INSERT\<close> of the
  key gives its value unless the value is a tombstone; a \<^verbatim>\<open>DELETE\<close> of the key makes its value
  a tombstone; the leaf base gives, for the key, each value that is not a tombstone; a split
  or merge delta whose pivot is above the key is passed over.
\<close>

fun visible_values :: "'k::linorder \<Rightarrow> DelSet \<Rightarrow> 'k Node \<Rightarrow> ItemPointer list" where
  "visible_values key tombstones (RecordDelta h op k v nxt) =
     (if k = key \<and> op = INSERT then
        (if v \<notin> tombstones then v # visible_values key tombstones nxt
         else visible_values key tombstones nxt)
      else if k = key \<and> op = DELETE then visible_values key (insert v tombstones) nxt
      else visible_values key tombstones nxt)"
| "visible_values key tombstones (LeafNode h slotkey slotdata) =
     concat (map (\<lambda>(k, vals). if k = key then filter (\<lambda>v. v \<notin> tombstones) vals else [])
               (zip (take (unat (slotuse h)) slotkey) slotdata))"
| "visible_values key tombstones (SplitDelta h Kp pQ nxt) = visible_values key tombstones nxt"
| "visible_values key tombstones (MergeDelta h Kp on nxt) = visible_values key tombstones nxt"
| "visible_values key tombstones (InnerNode h ks cs) = []"
| "visible_values key tombstones (IndexEntryDelta h Kp Kq i pQ nxt) = []"
| "visible_values key tombstones (RemoveDelta h nxt) = []"

text \<open>
  The chains on which the reader stays for the key: record deltas, split and merge deltas
  with the pivot above the key, and a leaf base all of whose \<^verbatim>\<open>slotuse\<close> slots are written.
\<close>

fun own_chain :: "'k::linorder \<Rightarrow> 'k Node \<Rightarrow> bool" where
  "own_chain key (RecordDelta h op k v nxt) = own_chain key nxt"
| "own_chain key (LeafNode h slotkey slotdata) =
     (unat (slotuse h) \<le> length slotkey \<and> unat (slotuse h) \<le> length slotdata)"
| "own_chain key (SplitDelta h Kp pQ nxt) = (key < Kp \<and> own_chain key nxt)"
| "own_chain key (MergeDelta h Kp on nxt) = (key < Kp \<and> own_chain key nxt)"
| "own_chain key (InnerNode h ks cs) = False"
| "own_chain key (IndexEntryDelta h Kp Kq i pQ nxt) = False"
| "own_chain key (RemoveDelta h nxt) = False"

text \<open>The number of deltas in front of the base node.\<close>

fun chain_depth :: "'k Node \<Rightarrow> nat" where
  "chain_depth (RecordDelta h op k v nxt) = Suc (chain_depth nxt)"
| "chain_depth (LeafNode h slotkey slotdata) = 0"
| "chain_depth (SplitDelta h Kp pQ nxt) = Suc (chain_depth nxt)"
| "chain_depth (MergeDelta h Kp on nxt) = Suc (chain_depth nxt)"
| "chain_depth (InnerNode h ks cs) = 0"
| "chain_depth (IndexEntryDelta h Kp Kq i pQ nxt) = Suc (chain_depth nxt)"
| "chain_depth (RemoveDelta h nxt) = Suc (chain_depth nxt)"

subsection \<open>A null entry on the descent, in the words of the specification\<close>

text \<open>
  "A PID encountered during the descent dereferences to null": the descent of \<^verbatim>\<open>search\<close> from a
  node, with the path so far, follows the chain and the PIDs as \<^verbatim>\<open>search\<close> does and comes to
  a PID whose entry in the mapping table is null.
\<close>

inductive null_on_descent ::
  "'k::linorder MappingTable \<Rightarrow> 'k \<Rightarrow> 'k Node \<Rightarrow> PidType list \<Rightarrow> bool"
  for mt :: "'k MappingTable" and key :: 'k where
  index_null:
    "key_greaterequal key Kp False \<and> key_less key Kq inf_Kq \<Longrightarrow> MappingTable_get mt pQ = Ok None
     \<Longrightarrow> null_on_descent mt key (IndexEntryDelta h Kp Kq inf_Kq pQ nxt) path"
| index_child:
    "key_greaterequal key Kp False \<and> key_less key Kq inf_Kq
     \<Longrightarrow> MappingTable_get mt pQ = Ok (Some node') \<Longrightarrow> null_on_descent mt key node' (pQ # path)
     \<Longrightarrow> null_on_descent mt key (IndexEntryDelta h Kp Kq inf_Kq pQ nxt) path"
| index_next:
    "\<not> (key_greaterequal key Kp False \<and> key_less key Kq inf_Kq)
     \<Longrightarrow> null_on_descent mt key nxt path
     \<Longrightarrow> null_on_descent mt key (IndexEntryDelta h Kp Kq inf_Kq pQ nxt) path"
| remove_null:
    "MappingTable_get mt p = Ok None
     \<Longrightarrow> null_on_descent mt key (RemoveDelta h nxt) (p0 # p # rest)"
| remove_parent:
    "MappingTable_get mt p = Ok (Some node') \<Longrightarrow> null_on_descent mt key node' (p # rest)
     \<Longrightarrow> null_on_descent mt key (RemoveDelta h nxt) (p0 # p # rest)"
| merge_orignal:
    "key_greaterequal key Kp False \<Longrightarrow> null_on_descent mt key node' path
     \<Longrightarrow> null_on_descent mt key (MergeDelta h Kp (Some node') nxt) path"
| merge_next:
    "\<not> key_greaterequal key Kp False \<Longrightarrow> null_on_descent mt key nxt path
     \<Longrightarrow> null_on_descent mt key (MergeDelta h Kp orignal_node nxt) path"
| split_null:
    "key_greaterequal key Kp False \<Longrightarrow> MappingTable_get mt pQ = Ok None
     \<Longrightarrow> null_on_descent mt key (SplitDelta h Kp pQ nxt) path"
| split_sibling:
    "key_greaterequal key Kp False \<Longrightarrow> MappingTable_get mt pQ = Ok (Some node')
     \<Longrightarrow> null_on_descent mt key node' (pQ # rest)
     \<Longrightarrow> null_on_descent mt key (SplitDelta h Kp pQ nxt) (p0 # rest)"
| split_next:
    "\<not> key_greaterequal key Kp False \<Longrightarrow> null_on_descent mt key nxt path
     \<Longrightarrow> null_on_descent mt key (SplitDelta h Kp pQ nxt) path"
| inner_leftmost_null:
    "slotuse h = 0 \<Longrightarrow> childid \<noteq> [] \<Longrightarrow> MappingTable_get mt (childid ! 0) = Ok None
     \<Longrightarrow> null_on_descent mt key (InnerNode h slotkey childid) path"
| inner_leftmost_child:
    "slotuse h = 0 \<Longrightarrow> childid \<noteq> [] \<Longrightarrow> MappingTable_get mt (childid ! 0) = Ok (Some node')
     \<Longrightarrow> null_on_descent mt key node' (childid ! 0 # path)
     \<Longrightarrow> null_on_descent mt key (InnerNode h slotkey childid) path"
| inner_null:
    "slotuse h \<noteq> 0
     \<Longrightarrow> find_slot (\<lambda>k. key_less key k False) slotkey 0 (unat (slotuse h)) = Ok hit
     \<Longrightarrow> i = (case hit of None \<Rightarrow> unat (slotuse h) | Some j \<Rightarrow> j)
     \<Longrightarrow> i < length childid \<Longrightarrow> MappingTable_get mt (childid ! i) = Ok None
     \<Longrightarrow> null_on_descent mt key (InnerNode h slotkey childid) path"
| inner_child:
    "slotuse h \<noteq> 0
     \<Longrightarrow> find_slot (\<lambda>k. key_less key k False) slotkey 0 (unat (slotuse h)) = Ok hit
     \<Longrightarrow> i = (case hit of None \<Rightarrow> unat (slotuse h) | Some j \<Rightarrow> j)
     \<Longrightarrow> i < length childid \<Longrightarrow> MappingTable_get mt (childid ! i) = Ok (Some node')
     \<Longrightarrow> null_on_descent mt key node' (childid ! i # path)
     \<Longrightarrow> null_on_descent mt key (InnerNode h slotkey childid) path"

text \<open>From some fuel on, the helper of \<^verbatim>\<open>search\<close> returns \<open>-1\<close>.\<close>

definition fails_from :: "nat \<Rightarrow> 'k::linorder MappingTable \<Rightarrow> 'k Node \<Rightarrow> 'k \<Rightarrow> PidType list \<Rightarrow> bool" where
  "fails_from n0 mt node key path \<longleftrightarrow> (\<forall>n \<ge> n0. \<exists>path'. search_node n mt node key path = Ok (- 1, path'))"

subsection \<open>The chain length, in the words of the specification\<close>

text \<open>
  Every delta of the chain has the chain length of its \<^verbatim>\<open>next\<close> plus one (in \<^verbatim>\<open>size_t\<close>), and
  the base node has chain length zero.
\<close>

fun chain_len_ok :: "'k Node \<Rightarrow> bool" where
  "chain_len_ok (LeafNode h ks vs) = (delta_list_len h = 0)"
| "chain_len_ok (InnerNode h ks cs) = (delta_list_len h = 0)"
| "chain_len_ok (RecordDelta h op k v nxt) =
     (delta_list_len h = delta_list_len (hdr nxt) + 1 \<and> chain_len_ok nxt)"
| "chain_len_ok (SplitDelta h Kp pQ nxt) =
     (delta_list_len h = delta_list_len (hdr nxt) + 1 \<and> chain_len_ok nxt)"
| "chain_len_ok (IndexEntryDelta h Kp Kq i pQ nxt) =
     (delta_list_len h = delta_list_len (hdr nxt) + 1 \<and> chain_len_ok nxt)"
| "chain_len_ok (RemoveDelta h nxt) =
     (delta_list_len h = delta_list_len (hdr nxt) + 1 \<and> chain_len_ok nxt)"
| "chain_len_ok (MergeDelta h Kp orignal_node nxt) =
     (delta_list_len h = delta_list_len (hdr nxt) + 1 \<and> chain_len_ok nxt)"

text \<open>Every chain of the mapping table is so.\<close>

definition table_len_ok :: "'k MappingTable \<Rightarrow> bool" where
  "table_len_ok mt \<longleftrightarrow>
     (\<forall>p node. MappingTable_get mt p = Ok (Some node) \<longrightarrow> chain_len_ok node)"

subsection \<open>The trees between two calls\<close>

text \<open>
  The tree that the constructor returns, and the tree after a call of \<^verbatim>\<open>insert_entry\<close> or
  \<^verbatim>\<open>delete_entry\<close> that returns, on such a tree.
\<close>

inductive reachable :: "'k::linorder BWTree \<Rightarrow> bool" where
  ctor: "BWTree_ctor unique ksize vsize w = Ok t \<Longrightarrow> reachable t"
| insert: "reachable t \<Longrightarrow> insert_entry n t key val = Ok (b, t') \<Longrightarrow> reachable t'"
| delete: "reachable t \<Longrightarrow> delete_entry n t key val = Ok (b, t') \<Longrightarrow> reachable t'"

text \<open>
  The first statement of a turn of the loop of \<^verbatim>\<open>split\<close>:
  \<^verbatim>\<open>is_leaf ? create_leaf(...) : create_inner(...)\<close>.
\<close>

definition create_sibling :: "'k::linorder BWTree \<Rightarrow> 'k Node \<Rightarrow> (PidType \<times> 'k \<times> 'k BWTree) result"
where
  "create_sibling t node =
     (if is_leaf (hdr node) then create_leaf t node else create_inner t node)"

subsection \<open>Example states\<close>

definition ex_tree :: "nat BWTree" where
  "ex_tree =
     \<lparr> root = 0, mapping_table = MappingTable_ctor, garbage_table = MappingTable_ctor,
       headleaf = 0, HasUniqueKeys = False, sizeof_KeyType = 16, sizeof_ValueType = 16,
       waste = 0 \<rparr>"

definition ex_inner :: "nat Node" where
  "ex_inner =
     InnerNode ((Node_ctor 0 NULL_PID False 0 0 True True)\<lparr>slotuse := 2\<rparr>) [10, 20] [1, 2, 3]"

definition ex_leaf :: "nat Node" where
  "ex_leaf =
     RecordDelta ((Node_ctor 1 7 True 0 50 True False)\<lparr>slotuse := 3\<rparr>) INSERT 20
       (ItemPointer 2 0)
       (LeafNode ((Node_ctor 0 7 True 0 50 True False)\<lparr>slotuse := 2\<rparr>) [10, 30]
          [[ItemPointer 1 0], [ItemPointer 3 0]])"



definition ex_get_chain :: "nat Node" where
  "ex_get_chain =
     with_pid 0
       (RecordDelta ((Node_ctor 3 NULL_PID True 0 0 True True)\<lparr>slotuse := 1\<rparr>) INSERT 5
          (ItemPointer 1 0)
       (RecordDelta ((Node_ctor 2 NULL_PID True 0 0 True True)\<lparr>slotuse := 1\<rparr>) DELETE 5
          (ItemPointer 2 0)
       (RecordDelta ((Node_ctor 1 NULL_PID True 0 0 True True)\<lparr>slotuse := 1\<rparr>) INSERT 5
          (ItemPointer 2 0)
       (LeafNode ((Node_ctor 0 NULL_PID True 0 0 True True)\<lparr>slotuse := 1\<rparr>) [5]
          [[ItemPointer 2 0, ItemPointer 3 0]]))))"

definition ex_get_tree :: "nat BWTree" where
  "ex_get_tree =
     ex_tree\<lparr>mapping_table :=
       \<lparr> mappingtable_1 = (\<lambda>i. None)(0 := Some ((\<lambda>i. None)(0 := Some ex_get_chain))),
         nextPid = 1 \<rparr>\<rparr>"

definition ex_null_root :: "nat Node" where
  "ex_null_root =
     InnerNode ((Node_ctor 0 NULL_PID False 0 0 True True)\<lparr>slotuse := 1, pid := Some 0\<rparr>)
       [10] [1, 2]"

definition ex_null_tree :: "nat BWTree" where
  "ex_null_tree =
     ex_tree\<lparr>mapping_table :=
       \<lparr> mappingtable_1 =
           (\<lambda>i. None)(0 := Some ((\<lambda>i. None)
              (0 := Some ex_null_root,
               1 := Some (with_pid 1 (new_LeafNode NULL_PID 0 10 True False))))),
         nextPid = 3 \<rparr>\<rparr>"

definition ex_uniq_tree :: "nat BWTree" where
  "ex_uniq_tree = ex_get_tree\<lparr>HasUniqueKeys := True\<rparr>"

subsection \<open>The record delta on a chain\<close>

text \<open>
  \<open>d\<close> is a record delta of kind \<open>op\<close> for \<open>key\<close> and \<open>val\<close> whose \<^verbatim>\<open>next\<close> is \<open>basic_node\<close>: its
  chain length is one more, its \<^verbatim>\<open>slotuse\<close> is \<open>su\<close>, its \<^verbatim>\<open>pid\<close> is \<open>p\<close>, and the leaf flag, the
  sibling and the bounds are those of \<open>basic_node\<close>.
\<close>

definition record_delta_on ::
  "RecordType \<Rightarrow> 'k \<Rightarrow> ItemPointer \<Rightarrow> 'k Node \<Rightarrow> 16 word \<Rightarrow> PidType \<Rightarrow> 'k Node \<Rightarrow> bool" where
  "record_delta_on op key val basic_node su p d \<longleftrightarrow>
     (\<exists>h. d = RecordDelta h op key val basic_node
        \<and> delta_list_len h = delta_list_len (hdr basic_node) + 1
        \<and> slotuse h = su \<and> pid h = Some p
        \<and> is_leaf h = is_leaf (hdr basic_node)
        \<and> next_leafnode h = next_leafnode (hdr basic_node)
        \<and> low_key h = low_key (hdr basic_node) \<and> inf_lowkey h = inf_lowkey (hdr basic_node)
        \<and> high_key h = high_key (hdr basic_node) \<and> inf_highkey h = inf_highkey (hdr basic_node))"

definition ex_new_tree :: "nat BWTree" where
  "ex_new_tree =
     ex_tree\<lparr>mapping_table :=
       \<lparr> mappingtable_1 =
           (\<lambda>i. None)(0 := Some ((\<lambda>i. None)
              (0 := Some (with_pid 0 (new_LeafNode NULL_PID 0 0 True True))))),
         nextPid = 1 \<rparr>\<rparr>"

(*DEFS-END*)

section \<open>Properties\<close>

subsection \<open>Outcomes\<close>

lemma bnd_eq_Ok: "bnd m f = Ok y \<longleftrightarrow> (\<exists>x. m = Ok x \<and> f x = Ok y)"
  by (cases m) auto

lemma value_equal_iff: "value_equal a b \<longleftrightarrow> a = b"
  by (cases a; cases b) (simp add: value_equal_def)

lemmas ex_defs =
  ex_tree_def ex_inner_def ex_leaf_def inner_fake_consolidate_def leaf_fake_consolidate_def
  copy_base_def slot_read_def upper_half_def innerslotmax_def leafslotmax_def
  BWTREE_NODE_SIZE_def sizeof_PidType_def MappingTable_add_def MappingTable_ctor_def
  Node_ctor_def NULL_PID_def GET_TIER1_INDEX_def GET_TIER2_INDEX_def MAPPING_TABLE_SIZE_def
  with_pid_def Let_def key_equal_def key_greaterequal_def key_less_def find_last_def
  vec_insert_def

subsection \<open>The mapping table\<close>

lemma tier_split:
  "GET_TIER1_INDEX p = GET_TIER1_INDEX q \<Longrightarrow> GET_TIER2_INDEX p = GET_TIER2_INDEX q \<Longrightarrow> p = q"
  unfolding GET_TIER1_INDEX_def GET_TIER2_INDEX_def
  by (metis bits_ident)

lemma MappingTable_add_Ok:
  assumes "MappingTable_add mt (Some node) = Ok (p, mt')"
  shows "p = int (nextPid mt)"
    and "MappingTable_get mt' p = Ok (Some (with_pid p node))"
    and "nextPid mt' = nextPid mt + 1"
    and "q \<noteq> p \<Longrightarrow> MappingTable_get mt' q = MappingTable_get mt q"
proof -
  from assms show p: "p = int (nextPid mt)"
    by (auto simp: MappingTable_add_def Let_def split: if_splits)
  from assms show "nextPid mt' = nextPid mt + 1"
    by (auto simp: MappingTable_add_def Let_def split: if_splits)
  have "p \<noteq> NULL_PID" using p by (simp add: NULL_PID_def)
  with assms show "MappingTable_get mt' p = Ok (Some (with_pid p node))"
    by (auto simp: MappingTable_add_def MappingTable_get_def Let_def split: if_splits)
  show "MappingTable_get mt' q = MappingTable_get mt q" if "q \<noteq> p"
    using assms that tier_split[of q p]
    by (auto simp: MappingTable_add_def MappingTable_get_def Let_def
        split: if_splits option.splits)
qed

lemma MappingTable_set_Ok:
  assumes "MappingTable_set mt p expected (Some node) = Ok (True, mt')" "p \<noteq> NULL_PID"
  shows "MappingTable_get mt' p = Ok (Some (with_pid p node))"
    and "MappingTable_get mt p = Ok expected"
    and "nextPid mt' = nextPid mt"
    and "q \<noteq> p \<Longrightarrow> MappingTable_get mt' q = MappingTable_get mt q"
  using assms tier_split[of q p]
  by (auto simp: MappingTable_set_def MappingTable_get_def Let_def
      split: if_splits option.splits)

lemma MappingTable_set_succeeds:
  assumes "MappingTable_get mt p = Ok (Some cur)"
  shows "\<exists>mt'. MappingTable_set mt p (Some cur) addr = Ok (True, mt')"
  using assms
  by (auto simp: MappingTable_set_def MappingTable_get_def Let_def
      split: if_splits option.splits)

subsection \<open>The new sibling of a split\<close>

lemma upper_half_Ok:
  "upper_half orisize d cap src = Ok xs
   \<Longrightarrow> xs = drop (orisize div 2 + d) (take (orisize + d) src)"
  by (auto simp: upper_half_def split: if_splits)

lemma create_leaf_result:
  assumes "create_leaf t check_split_node = Ok (new_pid, pivotal, t')"
  shows "\<exists>h slotkey slotdata res.
           leaf_fake_consolidate check_split_node = Ok res
         \<and> MappingTable_get (mapping_table t') new_pid = Ok (Some (LeafNode h slotkey slotdata))
         \<and> slotkey = drop (unat (slotuse (hdr check_split_node)) div 2)
                        (take (unat (slotuse (hdr check_split_node))) (fst res))
         \<and> slotdata = drop (unat (slotuse (hdr check_split_node)) div 2)
                        (take (unat (slotuse (hdr check_split_node))) (snd res))
         \<and> slotkey \<noteq> [] \<and> pivotal = hd slotkey \<and> low_key h = pivotal \<and> \<not> inf_lowkey h
         \<and> high_key h = high_key (hdr check_split_node)
         \<and> inf_highkey h = inf_highkey (hdr check_split_node)
         \<and> next_leafnode h = next_leafnode (hdr check_split_node)
         \<and> slotuse h = of_nat ((unat (slotuse (hdr check_split_node)) + 1) div 2)
         \<and> delta_list_len h = 0"
proof -
  let ?n = "unat (slotuse (hdr check_split_node))"
  from assms obtain res slotkey slotdata k0 mt where
    res: "leaf_fake_consolidate check_split_node = Ok res"
    and sk: "upper_half ?n 0 (leafslotmax t + 1) (fst res) = Ok slotkey"
    and sd: "upper_half ?n 0 (leafslotmax t + 1) (snd res) = Ok slotdata"
    and k0: "slot_read slotkey 0 OutOfRange = Ok k0"
    and add: "MappingTable_add (mapping_table t)
        (Some (LeafNode ((Node_ctor 0 (next_leafnode (hdr check_split_node)) True (waste t)
                (high_key (hdr check_split_node)) False (inf_highkey (hdr check_split_node)))
              \<lparr>low_key := k0, slotuse := of_nat ((?n + 1) div 2)\<rparr>)
                          slotkey slotdata)) = Ok (new_pid, mt)"
    and t': "t' = t\<lparr>mapping_table := mt\<rparr>" and piv: "pivotal = k0"
    unfolding create_leaf_def Let_def
    by (auto simp: bnd_eq_Ok split: if_splits prod.splits)
  from k0 have ne: "slotkey \<noteq> []" and hd: "k0 = hd slotkey"
    by (auto simp: slot_read_def hd_conv_nth split: if_splits)
  from MappingTable_add_Ok(2)[OF add] upper_half_Ok[OF sk] upper_half_Ok[OF sd] res ne hd piv t'
  show ?thesis
    by (simp add: with_pid_def Node_ctor_def)
qed

text \<open>
  C4. \<^verbatim>\<open>create_leaf\<close>, called by \<^verbatim>\<open>split\<close> on a leaf chain whose logical consolidation has
  \<open>n\<close> keys and whose \<^verbatim>\<open>slotuse\<close> is \<open>n\<close>, installs a new leaf \<open>S\<close> that holds the keys and
  values at the indices \<open>n div 2 .. n - 1\<close>, that is \<open>(n + 1) div 2\<close> of them. The pivot that
  \<^verbatim>\<open>split\<close> puts into the split delta and \<open>S.low_key\<close> are the first key of that half, the
  smallest one when the keys are sorted; \<open>S.high_key\<close> (with its infinity flag) and
  \<open>S.next_leafnode\<close> are those of the old node.
\<close>

theorem create_leaf_upper_half:
  assumes "create_leaf t check_split_node = Ok (new_pid, pivotal, t')"
    and "leaf_fake_consolidate check_split_node = Ok (keys, vals)"
    and "length keys = n" and "length vals = n"
    and "unat (slotuse (hdr check_split_node)) = n"
  shows "\<exists>h slotkey slotdata.
           MappingTable_get (mapping_table t') new_pid = Ok (Some (LeafNode h slotkey slotdata))
         \<and> slotkey = drop (n div 2) keys \<and> slotdata = drop (n div 2) vals
         \<and> length slotkey = (n + 1) div 2 \<and> unat (slotuse h) = (n + 1) div 2
         \<and> pivotal = keys ! (n div 2) \<and> low_key h = keys ! (n div 2) \<and> \<not> inf_lowkey h
         \<and> (sorted keys \<longrightarrow> (\<forall>k \<in> set slotkey. pivotal \<le> k))
         \<and> high_key h = high_key (hdr check_split_node)
         \<and> inf_highkey h = inf_highkey (hdr check_split_node)
         \<and> next_leafnode h = next_leafnode (hdr check_split_node)"
proof -
  from create_leaf_result[OF assms(1)] assms(2-5) obtain h slotkey slotdata where
    g: "MappingTable_get (mapping_table t') new_pid = Ok (Some (LeafNode h slotkey slotdata))"
    and sk: "slotkey = drop (n div 2) keys" and sd: "slotdata = drop (n div 2) vals"
    and ne: "slotkey \<noteq> []"
    and piv: "pivotal = hd slotkey" "low_key h = pivotal" "\<not> inf_lowkey h"
    and rest: "high_key h = high_key (hdr check_split_node)"
      "inf_highkey h = inf_highkey (hdr check_split_node)"
      "next_leafnode h = next_leafnode (hdr check_split_node)"
    and su: "slotuse h = of_nat ((n + 1) div 2)"
    by auto
  have nlt: "n < 65536"
    using assms(5) unsigned_less[of "slotuse (hdr check_split_node)", where ?'a=nat] by simp
  have len: "length slotkey = (n + 1) div 2" using sk assms(3) by auto
  have su': "unat (slotuse h) = (n + 1) div 2" using su nlt by (simp add: unat_of_nat)
  have hdk: "hd slotkey = keys ! (n div 2)"
    using ne sk assms(3) by (simp add: hd_drop_conv_nth)
  have srt: "sorted keys \<longrightarrow> (\<forall>k \<in> set slotkey. pivotal \<le> k)"
  proof
    assume "sorted keys"
    then have "sorted slotkey" using sk by (simp add: sorted_wrt_drop)
    then show "\<forall>k \<in> set slotkey. pivotal \<le> k"
      using ne piv(1) by (cases slotkey) auto
  qed
  from g sk sd len su' hdk piv rest srt show ?thesis by simp
qed

theorem create_leaf_upper_half_witness:
  "\<exists>t'. create_leaf ex_tree ex_leaf = Ok (0, 20, t')
     \<and> (\<exists>h. MappingTable_get (mapping_table t') 0
              = Ok (Some (LeafNode h [20, 30] [[ItemPointer 2 0], [ItemPointer 3 0]]))
            \<and> unat (slotuse h) = 2 \<and> low_key h = 20 \<and> \<not> inf_lowkey h
            \<and> high_key h = 50 \<and> \<not> inf_highkey h \<and> next_leafnode h = 7)"
proof -
  obtain t' where run: "create_leaf ex_tree ex_leaf = Ok (0, 20, t')"
    by (simp add: create_leaf_def ex_defs)
  have proj: "leaf_fake_consolidate ex_leaf
      = Ok ([10, 20, 30], [[ItemPointer 1 0], [ItemPointer 2 0], [ItemPointer 3 0]])"
    by (simp add: ex_defs)
  have su: "unat (slotuse (hdr ex_leaf)) = 3" by (simp add: ex_leaf_def)
  from create_leaf_upper_half [OF run proj _ _ su] run show ?thesis
    by (auto simp: ex_leaf_def Node_ctor_def numeral_3_eq_3)
qed

text \<open>
  C9. The inner node that \<^verbatim>\<open>create_inner\<close> installs for a split has \<^verbatim>\<open>NULL_PID\<close> in
  \<^verbatim>\<open>childid[0]\<close>; its other child slots hold the children \<open>orisize div 2 + 1 .. orisize\<close> of
  the logical consolidation of the node that is split, and its keys the separators
  \<open>orisize div 2 .. orisize - 1\<close>, where \<open>orisize\<close> is the \<^verbatim>\<open>slotuse\<close> of that node.
\<close>

theorem create_inner_first_child_null:
  assumes "create_inner t check_split_node = Ok (new_pid, pivotal, t')"
  shows "\<exists>h slotkey childid res.
           inner_fake_consolidate check_split_node = Ok res
         \<and> MappingTable_get (mapping_table t') new_pid = Ok (Some (InnerNode h slotkey childid))
         \<and> childid \<noteq> [] \<and> childid ! 0 = NULL_PID
         \<and> tl childid = drop (unat (slotuse (hdr check_split_node)) div 2 + 1)
                           (take (unat (slotuse (hdr check_split_node)) + 1) (snd res))
         \<and> slotkey = drop (unat (slotuse (hdr check_split_node)) div 2)
                        (take (unat (slotuse (hdr check_split_node))) (fst res))
         \<and> slotkey \<noteq> [] \<and> pivotal = hd slotkey \<and> low_key h = pivotal"
proof -
  let ?n = "unat (slotuse (hdr check_split_node))"
  from assms obtain res slotkey childs k0 mt where
    res: "inner_fake_consolidate check_split_node = Ok res"
    and sk: "upper_half ?n 0 (innerslotmax t + 1) (fst res) = Ok slotkey"
    and ch: "upper_half ?n 1 (innerslotmax t + 2) (snd res) = Ok childs"
    and k0: "slot_read slotkey 0 OutOfRange = Ok k0"
    and add: "MappingTable_add (mapping_table t)
        (Some (InnerNode ((Node_ctor 0 NULL_PID False (waste t)
                (high_key (hdr check_split_node)) False (inf_highkey (hdr check_split_node)))
              \<lparr>low_key := k0, slotuse := of_nat ((?n + 1) div 2)\<rparr>)
                          slotkey (NULL_PID # childs))) = Ok (new_pid, mt)"
    and t': "t' = t\<lparr>mapping_table := mt\<rparr>" and piv: "pivotal = k0"
    unfolding create_inner_def Let_def
    by (auto simp: bnd_eq_Ok split: if_splits prod.splits)
  from k0 have ne: "slotkey \<noteq> []" and hd: "k0 = hd slotkey"
    by (auto simp: slot_read_def hd_conv_nth split: if_splits)
  from MappingTable_add_Ok(2)[OF add] upper_half_Ok[OF sk] upper_half_Ok[OF ch] res ne hd piv t'
  show ?thesis
    by (simp add: with_pid_def)
qed

theorem create_inner_first_child_null_witness:
  "\<exists>t'. create_inner ex_tree ex_inner = Ok (0, 20, t')
     \<and> (\<exists>h. MappingTable_get (mapping_table t') 0
              = Ok (Some (InnerNode h [20] [NULL_PID, 3])))"
proof -
  obtain t' where run: "create_inner ex_tree ex_inner = Ok (0, 20, t')"
    by (simp add: create_inner_def ex_defs)
  have proj: "inner_fake_consolidate ex_inner = Ok ([10, 20], [1, 2, 3])"
    by (simp add: ex_defs)
  from create_inner_first_child_null [OF run] proj run show ?thesis
    by (auto simp: ex_inner_def neq_Nil_conv)
qed

subsection \<open>Consolidation\<close>
















lemma get_not_null: "MappingTable_get mt p = Ok (Some node) \<Longrightarrow> p \<noteq> NULL_PID"
  by (auto simp: MappingTable_get_def)





subsection \<open>\<^verbatim>\<open>get_value\<close>\<close>

lemma get_value_leaf_eq:
  assumes "n \<le> length slotkey" "n \<le> length slotdata" "i \<le> n"
  shows "get_value_leaf slotkey slotdata key delset i n res
       = Ok (res @ concat (map (\<lambda>(k, vals). if k = key then filter (\<lambda>v. v \<notin> delset) vals else [])
               (zip (drop i (take n slotkey)) (drop i slotdata))))"
  using assms
proof (induction "n - i" arbitrary: i res)
  case 0
  then have "i = n" by simp
  then show ?case by (simp add: get_value_leaf.simps)
next
  case (Suc d)
  then have lt: "i < n" and d: "d = n - Suc i" by auto
  have dk: "drop i (take n slotkey) = slotkey ! i # drop (Suc i) (take n slotkey)"
    using lt Suc.prems Cons_nth_drop_Suc[of i "take n slotkey"] by simp
  have dv: "drop i slotdata = slotdata ! i # drop (Suc i) slotdata"
    using lt Suc.prems by (simp add: Cons_nth_drop_Suc)
  from Suc.hyps(1)[OF d Suc.prems(1,2)] lt
  have IH: "\<And>res. get_value_leaf slotkey slotdata key delset (Suc i) n res
       = Ok (res @ concat (map (\<lambda>(k, vals). if k = key then filter (\<lambda>v. v \<notin> delset) vals else [])
               (zip (drop (Suc i) (take n slotkey)) (drop (Suc i) slotdata))))"
    by simp
  show ?case
    using lt Suc.prems
    by (subst get_value_leaf.simps) (simp add: slot_read_def IH dk dv key_equal_def)
qed

lemma get_value_loop_visible:
  assumes "own_chain key node" "chain_depth node < n"
  shows "get_value_loop n t key (Some node) delset res = Ok (res @ visible_values key delset node)"
  using assms
proof (induction node arbitrary: n delset res)
  case (LeafNode h slotkey slotdata)
  then obtain m where n: "n = Suc m" by (cases n) auto
  from LeafNode show ?case
    by (simp add: n get_value_leaf_eq)
next
  case (RecordDelta h op k v nxt)
  then obtain m where n: "n = Suc m" by (cases n) auto
  with RecordDelta show ?case
    by (cases op) (simp_all add: key_equal_def)
next
  case (SplitDelta h Kp pQ nxt)
  then obtain m where n: "n = Suc m" by (cases n) auto
  with SplitDelta show ?case by (simp add: key_greaterequal_def)
next
  case (MergeDelta h Kp on nxt)
  then obtain m where n: "n = Suc m" by (cases n) auto
  with MergeDelta show ?case by (simp add: key_greaterequal_def)
qed simp_all

text \<open>
  C1. When \<^verbatim>\<open>search\<close> leads \<^verbatim>\<open>get_value\<close> to a leaf chain on which the reader stays for the key,
  \<^verbatim>\<open>get_value\<close> returns, and it has appended to \<^verbatim>\<open>result\<close> exactly the values visible for the
  key in that chain read from the head to the base: the value of an \<^verbatim>\<open>INSERT\<close> of the key
  unless a \<^verbatim>\<open>DELETE\<close> of the key nearer the head has made it a tombstone, and each value
  that the leaf base stores for the key and that is not a tombstone.
\<close>

theorem get_value_visible:
  assumes "search n t (root t) key = Ok (target_node # path)"
    and "MappingTable_get (mapping_table t) target_node = Ok (Some head)"
    and "is_leaf (hdr head)"
    and "own_chain key head"
    and "chain_depth head < n"
  shows "get_value (Suc n) t key res = Ok (res @ visible_values key {} head)"
  using assms by (simp add: top_def get_value_loop_visible)

theorem get_value_visible_witness:
  "search 4 ex_get_tree (root ex_get_tree) 5 = Ok [0]
   \<and> MappingTable_get (mapping_table ex_get_tree) 0 = Ok (Some ex_get_chain)
   \<and> is_leaf (hdr ex_get_chain) \<and> own_chain 5 ex_get_chain \<and> chain_depth ex_get_chain < 4
   \<and> get_value 5 ex_get_tree 5 [] = Ok [ItemPointer 1 0, ItemPointer 3 0]"
proof -
  have s: "search 4 ex_get_tree (root ex_get_tree) 5 = Ok [0]"
    by (simp add: search_def ex_get_tree_def ex_get_chain_def MappingTable_get_def read_pid_def
        ex_defs eval_nat_numeral)
  have g: "MappingTable_get (mapping_table ex_get_tree) 0 = Ok (Some ex_get_chain)"
    by (simp add: ex_get_tree_def MappingTable_get_def ex_defs)
  have c: "is_leaf (hdr ex_get_chain)" "own_chain 5 ex_get_chain" "chain_depth ex_get_chain < 4"
    and v: "visible_values 5 {} ex_get_chain = [ItemPointer 1 0, ItemPointer 3 0]"
    by (simp_all add: ex_get_chain_def ex_defs)
  have "get_value (Suc 4) ex_get_tree 5 [] = Ok ([] @ visible_values 5 {} ex_get_chain)"
    by (rule get_value_visible [OF s g c])
  with s g c v show ?thesis by (simp add: eval_nat_numeral)
qed

subsection \<open>\<^verbatim>\<open>search\<close> and null entries\<close>

lemma fails_fromI_base:
  assumes "\<And>m. \<exists>path'. search_node (Suc m) mt node key path = Ok (- 1, path')"
  shows "\<exists>n0. fails_from n0 mt node key path"
proof -
  have "fails_from 1 mt node key path"
    unfolding fails_from_def
  proof (intro allI impI)
    fix n :: nat assume "1 \<le> n"
    then obtain m where "n = Suc m" by (cases n) auto
    with assms show "\<exists>path'. search_node n mt node key path = Ok (- 1, path')" by simp
  qed
  then show ?thesis ..
qed

lemma fails_fromI_step:
  assumes "\<exists>n0. fails_from n0 mt node' key path'"
    and "\<And>m. search_node (Suc m) mt node key path = search_node m mt node' key path'"
  shows "\<exists>n0. fails_from n0 mt node key path"
proof -
  from assms(1) obtain n0 where n0: "fails_from n0 mt node' key path'" ..
  have "fails_from (Suc n0) mt node key path"
    unfolding fails_from_def
  proof (intro allI impI)
    fix n :: nat assume "Suc n0 \<le> n"
    then obtain m where m: "n = Suc m" "n0 \<le> m" by (cases n) auto
    with n0 assms(2) show "\<exists>path'. search_node n mt node key path = Ok (- 1, path')"
      by (simp add: fails_from_def)
  qed
  then show ?thesis ..
qed

lemma null_on_descent_fails:
  assumes "null_on_descent mt key node path"
  shows "\<exists>n0. fails_from n0 mt node key path"
  using assms
proof (induction rule: null_on_descent.induct)
  case (index_null Kp Kq inf_Kq pQ h nxt path)
  have "\<exists>path'. search_node (Suc m) mt (IndexEntryDelta h Kp Kq inf_Kq pQ nxt) key (path) = Ok (- 1, path')" for m
    using index_null by (simp)
  then show ?case by (rule fails_fromI_base)
next
  case (index_child Kp Kq inf_Kq pQ node' path h nxt)
  have "search_node (Suc m) mt (IndexEntryDelta h Kp Kq inf_Kq pQ nxt) key (path) = search_node m mt (node') key (pQ # path)" for m
    using index_child by (simp)
  with index_child.IH show ?case by (rule fails_fromI_step)
next
  case (index_next Kp Kq inf_Kq nxt path h pQ)
  have "search_node (Suc m) mt (IndexEntryDelta h Kp Kq inf_Kq pQ nxt) key (path) = search_node m mt (nxt) key (path)" for m
    using index_next(1) by auto
  with index_next.IH show ?case by (rule fails_fromI_step)
next
  case (remove_null p h nxt p0 rest)
  have "\<exists>path'. search_node (Suc m) mt (RemoveDelta h nxt) key (p0 # p # rest) = Ok (- 1, path')" for m
    using remove_null by (simp add: pop_def top_def)
  then show ?case by (rule fails_fromI_base)
next
  case (remove_parent p node' rest h nxt p0)
  have "search_node (Suc m) mt (RemoveDelta h nxt) key (p0 # p # rest) = search_node m mt (node') key (p # rest)" for m
    using remove_parent by (simp add: pop_def top_def)
  with remove_parent.IH show ?case by (rule fails_fromI_step)
next
  case (merge_orignal Kp node' path h nxt)
  have "search_node (Suc m) mt (MergeDelta h Kp (Some node') nxt) key (path) = search_node m mt (node') key (path)" for m
    using merge_orignal by (simp)
  with merge_orignal.IH show ?case by (rule fails_fromI_step)
next
  case (merge_next Kp nxt path h orignal_node)
  have "search_node (Suc m) mt (MergeDelta h Kp orignal_node nxt) key (path) = search_node m mt (nxt) key (path)" for m
    using merge_next by (simp)
  with merge_next.IH show ?case by (rule fails_fromI_step)
next
  case (split_null Kp pQ h nxt path)
  have "\<exists>path'. search_node (Suc m) mt (SplitDelta h Kp pQ nxt) key (path) = Ok (- 1, path')" for m
    using split_null by (simp)
  then show ?case by (rule fails_fromI_base)
next
  case (split_sibling Kp pQ node' rest h nxt p0)
  have "search_node (Suc m) mt (SplitDelta h Kp pQ nxt) key (p0 # rest) = search_node m mt (node') key (pQ # rest)" for m
    using split_sibling by (simp add: pop_def)
  with split_sibling.IH show ?case by (rule fails_fromI_step)
next
  case (split_next Kp nxt path h pQ)
  have "search_node (Suc m) mt (SplitDelta h Kp pQ nxt) key (path) = search_node m mt (nxt) key (path)" for m
    using split_next by (simp)
  with split_next.IH show ?case by (rule fails_fromI_step)
next
  case (inner_leftmost_null h childid slotkey path)
  have "\<exists>path'. search_node (Suc m) mt (InnerNode h slotkey childid) key (path) = Ok (- 1, path')" for m
    using inner_leftmost_null by (simp add: slot_read_def)
  then show ?case by (rule fails_fromI_base)
next
  case (inner_leftmost_child h childid node' path slotkey)
  from inner_leftmost_child(3) have ne: "childid ! 0 \<noteq> NULL_PID"
    by (auto simp: MappingTable_get_def)
  have "search_node (Suc m) mt (InnerNode h slotkey childid) key (path) = search_node m mt (node') key (childid ! 0 # path)" for m
    using inner_leftmost_child ne by (simp add: slot_read_def)
  with inner_leftmost_child.IH show ?case by (rule fails_fromI_step)
next
  case (inner_null h slotkey hit i childid path)
  have "\<exists>path'. search_node (Suc m) mt (InnerNode h slotkey childid) key (path) = Ok (- 1, path')" for m
    using inner_null by (simp add: slot_read_def)
  then show ?case by (rule fails_fromI_base)
next
  case (inner_child h slotkey hit i childid node' path)
  have "search_node (Suc m) mt (InnerNode h slotkey childid) key (path) = search_node m mt (node') key (childid ! i # path)" for m
    using inner_child by (simp add: slot_read_def)
  with inner_child.IH show ?case by (rule fails_fromI_step)
qed

text \<open>
  C8, as amended. \<^verbatim>\<open>search\<close> returns the empty path whenever a PID that the descent comes to
  has a null entry in the mapping table, the starting PID included: with enough fuel for the
  descent the result is the empty path.
\<close>

theorem search_null_empty:
  assumes "MappingTable_get (mapping_table t) p = Ok None
         \<or> (\<exists>node. MappingTable_get (mapping_table t) p = Ok (Some node)
                  \<and> null_on_descent (mapping_table t) key node [p])"
  shows "\<exists>n0. \<forall>n \<ge> n0. search n t p key = Ok []"
  using assms
proof
  assume "MappingTable_get (mapping_table t) p = Ok None"
  then show ?thesis by (simp add: search_def)
next
  assume "\<exists>node. MappingTable_get (mapping_table t) p = Ok (Some node)
                  \<and> null_on_descent (mapping_table t) key node [p]"
  then obtain node where g: "MappingTable_get (mapping_table t) p = Ok (Some node)"
    and d: "null_on_descent (mapping_table t) key node [p]" by blast
  from null_on_descent_fails[OF d] obtain n0 where
    "fails_from n0 (mapping_table t) node key [p]" ..
  then have "search n t p key = Ok []" if "n0 \<le> n" for n
  proof -
    from that \<open>fails_from n0 (mapping_table t) node key [p]\<close> obtain path' where
      "search_node n (mapping_table t) node key [p] = Ok (- 1, path')"
      unfolding fails_from_def by blast
    with g show ?thesis by (simp add: search_def)
  qed
  then show ?thesis by blast
qed

theorem search_null_empty_witness:
  "MappingTable_get (mapping_table ex_null_tree) 0 = Ok (Some ex_null_root)
   \<and> null_on_descent (mapping_table ex_null_tree) 15 ex_null_root [0]
   \<and> (\<exists>n0. \<forall>n \<ge> n0. search n ex_null_tree 0 15 = Ok [])"
proof -
  have g: "MappingTable_get (mapping_table ex_null_tree) 0 = Ok (Some ex_null_root)"
    by (simp add: ex_null_tree_def MappingTable_get_def ex_defs)
  have g2: "MappingTable_get (mapping_table ex_null_tree) 2 = Ok None"
    by (simp add: ex_null_tree_def MappingTable_get_def ex_defs)
  have d: "null_on_descent (mapping_table ex_null_tree) 15 ex_null_root [0]"
    unfolding ex_null_root_def
    by (rule null_on_descent.inner_null[where hit = None and i = 1])
       (simp_all add: find_slot.simps slot_read_def key_less_def g2)
  from search_null_empty [of ex_null_tree 0 15] g d show ?thesis by blast
qed

text \<open>
  C8, as stated, fails: no caller retries on an empty path. In a tree whose inner root has a
  child PID with a null entry, \<^verbatim>\<open>search\<close> returns the empty path, and \<^verbatim>\<open>get_value\<close>, \<^verbatim>\<open>split\<close>,
  \<^verbatim>\<open>insert_entry\<close> and \<^verbatim>\<open>delete_entry\<close> read \<^verbatim>\<open>path.top()\<close> of it.
\<close>

theorem no_retry_on_empty_path:
  "search (Suc (Suc 0)) ex_null_tree (root ex_null_tree) 15 = Ok []
   \<and> get_value (Suc (Suc (Suc 0))) ex_null_tree 15 [] = Err EmptyStack
   \<and> split (Suc (Suc 0)) ex_null_tree 15 = Err EmptyStack
   \<and> insert_entry (Suc (Suc (Suc 0))) ex_null_tree 15 (ItemPointer 1 0) = Err EmptyStack
   \<and> delete_entry (Suc (Suc (Suc 0))) ex_null_tree 15 (ItemPointer 1 0) = Err EmptyStack"
proof -
  have s: "search (Suc (Suc 0)) ex_null_tree (root ex_null_tree) 15 = Ok []"
    by (simp add: search_def ex_null_tree_def ex_null_root_def MappingTable_get_def
        find_slot.simps ex_defs)
  then show ?thesis
    by (simp add: split_def top_def)
qed

subsection \<open>\<^verbatim>\<open>count_pair\<close>\<close>

lemma count_vals_le:
  "0 \<le> p \<Longrightarrow> p \<le> t \<Longrightarrow>
   0 \<le> snd (count_vals val deleted vs t p)
   \<and> snd (count_vals val deleted vs t p) \<le> fst (count_vals val deleted vs t p)"
  by (induction vs arbitrary: t p) auto

lemma count_pair_loop_le:
  "count_pair_loop key val node t p deleted = Ok (t', p') \<Longrightarrow> 0 \<le> p \<Longrightarrow> p \<le> t
   \<Longrightarrow> 0 \<le> p' \<and> p' \<le> t'"
proof (induction key val node t p deleted rule: count_pair_loop.induct)
  case (3 key val h slotkey slotdata total_count pair_count deleted)
  from "3.prems"(1) obtain hit where
    hit: "(case hit of None \<Rightarrow> Ok (total_count, pair_count)
          | Some i \<Rightarrow> bnd (slot_read slotdata i NullDeref)
                (\<lambda>vals. Ok (count_vals val deleted vals total_count pair_count))) = Ok (t', p')"
    by (auto simp: bnd_eq_Ok)
  show ?case
  proof (cases hit)
    case None
    with hit "3.prems" show ?thesis by simp
  next
    case (Some i)
    with hit obtain vals where "count_vals val deleted vals total_count pair_count = (t', p')"
      by (auto simp: bnd_eq_Ok)
    with count_vals_le [OF "3.prems"(2,3), of val deleted vals] show ?thesis by simp
  qed
qed (auto split: if_splits)

text \<open>
  C10. Whenever \<^verbatim>\<open>count_pair\<close> returns \<open>(total_count, pair_count)\<close> for a chain, a key and a
  value, \<open>0 \<le> pair_count \<le> total_count\<close>: the visible values equal to the value are among
  the visible values of the key.
\<close>

theorem count_pair_bounds:
  "count_pair key val listhead = Ok (total_count, pair_count)
   \<Longrightarrow> 0 \<le> pair_count \<and> pair_count \<le> total_count"
  unfolding count_pair_def by (rule count_pair_loop_le) auto

theorem count_pair_bounds_witness:
  "count_pair (5::nat) (ItemPointer 1 1)
     (Some (RecordDelta (Node_ctor 1 NULL_PID True 0 0 True True) INSERT 5 (ItemPointer 1 1)
        (LeafNode ((Node_ctor 0 NULL_PID True 0 0 True True)\<lparr>slotuse := 1\<rparr>) [5]
           [[ItemPointer 1 2, ItemPointer 1 1]])))
   = Ok (3, 2) \<and> (0::int) \<le> 2 \<and> (2::int) \<le> 3"
proof -
  have run: "count_pair (5::nat) (ItemPointer 1 1)
     (Some (RecordDelta (Node_ctor 1 NULL_PID True 0 0 True True) INSERT 5 (ItemPointer 1 1)
        (LeafNode ((Node_ctor 0 NULL_PID True 0 0 True True)\<lparr>slotuse := 1\<rparr>) [5]
           [[ItemPointer 1 2, ItemPointer 1 1]])))
   = Ok (3, 2)"
    by (simp add: count_pair_def key_equal_def value_equal_def find_slot.simps slot_read_def
        Node_ctor_def)
  from count_pair_bounds [OF run] run show ?thesis by simp
qed

subsection \<open>\<^verbatim>\<open>insert_entry\<close> and \<^verbatim>\<open>delete_entry\<close>\<close>

lemma consolidate_loop_head:
  assumes "consolidate_loop n t p orinode = Ok (Some node, t')"
    and "MappingTable_get (mapping_table t) p = Ok (Some orinode)"
  shows "MappingTable_get (mapping_table t') p = Ok (Some node)"
  using assms
proof (induction n arbitrary: orinode)
  case 0
  then show ?case by simp
next
  case (Suc n)
  show ?case
  proof (cases "MAX_DELTA_CHAIN_LEN < delta_list_len (hdr orinode)")
    case False
    with Suc.prems show ?thesis by simp
  next
    case True
    with Suc.prems(1) obtain new_node ok mt where
      set: "MappingTable_set (mapping_table t) p (Some orinode) (Some new_node) = Ok (ok, mt)"
      and rest: "(if ok then
                    bnd (garbage_add n (garbage_table t) orinode)
                      (\<lambda>gt. Ok (Some (with_pid p new_node),
                                 t\<lparr>mapping_table := mt, garbage_table := gt\<rparr>))
                  else
                    bnd (MappingTable_get (mapping_table t) p)
                      (\<lambda>node. case node of
                           None \<Rightarrow> Err NullDeref
                         | Some orinode' \<Rightarrow>
                             if need_split t orinode' then Ok (None, t)
                             else consolidate_loop n t p orinode')) = Ok (Some node, t')"
      by (auto simp: bnd_eq_Ok)
    show ?thesis
    proof (cases ok)
      case True
      with rest obtain gt where "node = with_pid p new_node"
        "t' = t\<lparr>mapping_table := mt, garbage_table := gt\<rparr>"
        by (auto simp: bnd_eq_Ok)
      moreover from set True
      have set': "MappingTable_set (mapping_table t) p (Some orinode) (Some new_node) = Ok (True, mt)"
        by simp
      have "MappingTable_get mt p = Ok (Some (with_pid p new_node))"
        by (rule MappingTable_set_Ok(1)[OF set' get_not_null[OF Suc.prems(2)]])
      ultimately show ?thesis by simp
    next
      case False
      with rest Suc.prems(2) have "consolidate_loop n t p orinode = Ok (Some node, t')"
        by (auto split: if_splits)
      from Suc.IH[OF this Suc.prems(2)] show ?thesis .
    qed
  qed
qed

lemma consolidate_head:
  assumes "consolidate n t p = Ok (Some node, t')"
  shows "MappingTable_get (mapping_table t') p = Ok (Some node)"
proof -
  from assms obtain orinode where
    g: "MappingTable_get (mapping_table t) p = Ok (Some orinode)"
    and l: "consolidate_loop n t p orinode = Ok (Some node, t')"
    by (auto simp: consolidate_def bnd_eq_Ok split: option.splits if_splits)
  from consolidate_loop_head[OF l g] show ?thesis .
qed

lemma with_pid_insert_delta [simp]:
  "with_pid p (insert_delta p basic_node key val key_dup) = insert_delta p basic_node key val key_dup"
  by (simp add: with_pid_def insert_delta_def new_RecordDelta_def prepend_def)

lemma insert_entry_at_target:
  assumes tg: "write_target m t key basic_pid basic_node t2"
    and dup: "key_is_in key (Some basic_node) {} = Ok key_dup"
  shows "\<exists>t'. insert_entry (Suc m) t key val = Ok (\<not> (HasUniqueKeys t2 \<and> key_dup), t')
      \<and> (if HasUniqueKeys t2 \<and> key_dup then t' = t2
          else MappingTable_get (mapping_table t') basic_pid
               = Ok (Some (insert_delta basic_pid basic_node key val key_dup)))"
proof -
  from tg obtain t1 path where sp: "split m t key = Ok t1"
    and se: "search m t1 (root t1) key = Ok (basic_pid # path)"
    and co: "consolidate m t1 basic_pid = Ok (Some basic_node, t2)"
    and kin: "key_in_node key basic_node"
    unfolding write_target_def by blast
  have hd: "MappingTable_get (mapping_table t2) basic_pid = Ok (Some basic_node)"
    by (rule consolidate_head[OF co])
  show ?thesis
  proof (cases "HasUniqueKeys t2 \<and> key_dup")
    case True
    with sp se co kin dup show ?thesis by (simp add: top_def)
  next
    case False
    from MappingTable_set_succeeds[OF hd] obtain mt where
      set: "MappingTable_set (mapping_table t2) basic_pid (Some basic_node)
              (Some (insert_delta basic_pid basic_node key val key_dup)) = Ok (True, mt)"
      by blast
    from MappingTable_set_Ok(1)[OF set get_not_null[OF hd]]
    have "MappingTable_get mt basic_pid
        = Ok (Some (insert_delta basic_pid basic_node key val key_dup))" by simp
    with False sp se co kin dup set show ?thesis by (auto simp: top_def)
  qed
qed

lemma insert_entry_returned:
  assumes "insert_entry n t key val = Ok (b, t')"
  shows "\<exists>m t0 basic_pid basic_node t2 key_dup.
           write_target m t0 key basic_pid basic_node t2
         \<and> key_is_in key (Some basic_node) {} = Ok key_dup
         \<and> b = (\<not> (HasUniqueKeys t2 \<and> key_dup))
         \<and> (if HasUniqueKeys t2 \<and> key_dup then t' = t2
            else MappingTable_get (mapping_table t') basic_pid
                 = Ok (Some (insert_delta basic_pid basic_node key val key_dup)))"
  using assms
proof (induction n arbitrary: t)
  case 0
  then show ?case by simp
next
  case (Suc n)
  from Suc.prems obtain t1 path basic_pid node t2 where
    sp: "split n t key = Ok t1"
    and se: "search n t1 (root t1) key = Ok path"
    and tp: "top path = Ok basic_pid"
    and co: "consolidate n t1 basic_pid = Ok (node, t2)"
    and rest: "(case node of
                     None \<Rightarrow> insert_entry n t2 key val
                   | Some basic_node \<Rightarrow>
                       if \<not> key_in_node key basic_node then insert_entry n t2 key val
                       else
                         bnd (key_is_in key (Some basic_node) {})
                           (\<lambda>key_dup.
                              if HasUniqueKeys t2 \<and> key_dup then Ok (False, t2)
                              else
                                bnd (MappingTable_set (mapping_table t2) basic_pid
                                       (Some basic_node)
                                       (Some (insert_delta basic_pid basic_node key val
                                                key_dup)))
                                  (\<lambda>(ok, mt).
                                     if \<not> ok then insert_entry n t2 key val
                                     else Ok (True, t2\<lparr>mapping_table := mt\<rparr>)))) = Ok (b, t')"
    by (auto simp: bnd_eq_Ok)
  from tp obtain rest_path where path: "path = basic_pid # rest_path"
    by (auto simp: top_def split: list.splits)
  show ?case
  proof (cases node)
    case None
    with rest have "insert_entry n t2 key val = Ok (b, t')" by simp
    from Suc.IH[OF this] show ?thesis .
  next
    case (Some basic_node)
    show ?thesis
    proof (cases "key_in_node key basic_node")
      case False
      with rest Some have "insert_entry n t2 key val = Ok (b, t')" by simp
      from Suc.IH[OF this] show ?thesis .
    next
      case True
      have tg: "write_target n t key basic_pid basic_node t2"
        unfolding write_target_def using sp se co True path Some by blast
      from rest Some True obtain key_dup where
        dup: "key_is_in key (Some basic_node) {} = Ok key_dup"
        and r2: "(if HasUniqueKeys t2 \<and> key_dup then Ok (False, t2)
                              else
                                bnd (MappingTable_set (mapping_table t2) basic_pid
                                       (Some basic_node)
                                       (Some (insert_delta basic_pid basic_node key val
                                                key_dup)))
                                  (\<lambda>(ok, mt).
                                     if \<not> ok then insert_entry n t2 key val
                                     else Ok (True, t2\<lparr>mapping_table := mt\<rparr>))) = Ok (b, t')"
        by (auto simp: bnd_eq_Ok)
      from insert_entry_at_target[OF tg dup, of val] obtain t'' where
        "insert_entry (Suc n) t key val = Ok (\<not> (HasUniqueKeys t2 \<and> key_dup), t'')"
        and inst: "(if HasUniqueKeys t2 \<and> key_dup then t'' = t2
          else MappingTable_get (mapping_table t'') basic_pid
               = Ok (Some (insert_delta basic_pid basic_node key val key_dup)))"
        by blast
      with Suc.prems have "b = (\<not> (HasUniqueKeys t2 \<and> key_dup))" "t'' = t'" by simp_all
      with tg dup inst show ?thesis by blast
    qed
  qed
qed

lemma count_pair_le:
  assumes "count_pair key val node = Ok tv"
  shows "0 \<le> snd tv \<and> snd tv \<le> fst tv"
  using assms count_pair_loop_le[of key val node 0 0 "{}" "fst tv" "snd tv"]
  by (simp add: count_pair_def)

lemma delete_entry_at_target:
  assumes tg: "write_target m t key basic_pid basic_node t2"
    and cnt: "count_pair key val (Some basic_node) = Ok (total_count, pair_count)"
    and pd: "pid (hdr basic_node) = Some basic_pid"
  shows "\<exists>t'. delete_entry (Suc m) t key val = Ok (pair_count \<noteq> 0, t')
      \<and> (if pair_count = 0 then t' = t2
          else MappingTable_get (mapping_table t') basic_pid
               = Ok (Some (with_pid basic_pid
                     (delete_delta basic_node key val (pair_count = total_count)))))"
proof -
  from tg obtain t1 path where sp: "split m t key = Ok t1"
    and se: "search m t1 (root t1) key = Ok (basic_pid # path)"
    and co: "consolidate m t1 basic_pid = Ok (Some basic_node, t2)"
    and kin: "key_in_node key basic_node"
    unfolding write_target_def by blast
  have hd: "MappingTable_get (mapping_table t2) basic_pid = Ok (Some basic_node)"
    by (rule consolidate_head[OF co])
  from count_pair_le[OF cnt] have le: "\<not> total_count < pair_count" by simp
  show ?thesis
  proof (cases "pair_count = 0")
    case True
    with sp se co kin cnt show ?thesis by (simp add: top_def pop_def)
  next
    case False
    from MappingTable_set_succeeds[OF hd] obtain mt where
      set: "MappingTable_set (mapping_table t2) basic_pid (Some basic_node)
              (Some (delete_delta basic_node key val (pair_count = total_count))) = Ok (True, mt)"
      by blast
    from MappingTable_set_Ok(1)[OF set get_not_null[OF hd]]
    have g: "MappingTable_get mt basic_pid
        = Ok (Some (with_pid basic_pid
                (delete_delta basic_node key val (pair_count = total_count))))" .
    have ad: "append_delete t2 basic_node key val (pair_count = total_count)
        = Ok (True, t2\<lparr>mapping_table := mt\<rparr>)"
      using pd set by (simp add: append_delete_def read_pid_def)
    with False le sp se co kin cnt g show ?thesis by (simp add: top_def pop_def)
  qed
qed

lemma delete_entry_returned:
  assumes "delete_entry n t key val = Ok (b, t')"
  shows "\<exists>m t0 basic_pid basic_node t2 total_count pair_count.
           write_target m t0 key basic_pid basic_node t2
         \<and> count_pair key val (Some basic_node) = Ok (total_count, pair_count)
         \<and> b = (pair_count \<noteq> 0)
         \<and> (if pair_count = 0 then t' = t2
            else \<exists>p. pid (hdr basic_node) = Some p
               \<and> MappingTable_get (mapping_table t') p
                 = Ok (Some (with_pid p
                       (delete_delta basic_node key val (pair_count = total_count)))))"
  using assms
proof (induction n arbitrary: t)
  case 0
  then show ?case by simp
next
  case (Suc n)
  from Suc.prems obtain t1 path basic_pid path' node t2 where
    sp: "split n t key = Ok t1"
    and se: "search n t1 (root t1) key = Ok path"
    and tp: "top path = Ok basic_pid"
    and co: "consolidate n t1 basic_pid = Ok (node, t2)"
    and rest: "(case node of
                        None \<Rightarrow> Err NullDeref
                      | Some basic_node \<Rightarrow>
                          if \<not> key_in_node key basic_node then delete_entry n t2 key val
                          else
                            bnd (count_pair key val (Some basic_node))
                              (\<lambda>tv_count_pair.
                                 if snd tv_count_pair = 0 then Ok (False, t2)
                                 else if fst tv_count_pair < snd tv_count_pair
                                 then Err AssertCountPairOrder
                                 else
                                   bnd (append_delete t2 basic_node key val
                                          (snd tv_count_pair = fst tv_count_pair))
                                     (\<lambda>(ok, t3).
                                        if \<not> ok then delete_entry n t3 key val
                                        else Ok (True, t3)))) = Ok (b, t')"
    by (auto simp: bnd_eq_Ok)
  from tp obtain rest_path where path: "path = basic_pid # rest_path"
    by (auto simp: top_def split: list.splits)
  from rest obtain basic_node where Some: "node = Some basic_node" by (cases node) auto
  show ?case
  proof (cases "key_in_node key basic_node")
    case False
    with rest Some have "delete_entry n t2 key val = Ok (b, t')" by simp
    from Suc.IH[OF this] show ?thesis .
  next
    case True
    have tg: "write_target n t key basic_pid basic_node t2"
      unfolding write_target_def using sp se co True path Some by blast
    from rest Some True obtain tv where
      cnt0: "count_pair key val (Some basic_node) = Ok tv"
      and r0: "(if snd tv = 0 then Ok (False, t2)
                                 else if fst tv < snd tv
                                 then Err AssertCountPairOrder
                                 else
                                   bnd (append_delete t2 basic_node key val
                                          (snd tv = fst tv))
                                     (\<lambda>(ok, t3).
                                        if \<not> ok then delete_entry n t3 key val
                                        else Ok (True, t3))) = Ok (b, t')"
      by (auto simp: bnd_eq_Ok)
    obtain total_count pair_count where tv: "tv = (total_count, pair_count)" by (cases tv)
    from cnt0 tv have cnt: "count_pair key val (Some basic_node) = Ok (total_count, pair_count)"
      by simp
    from r0[unfolded tv fst_conv snd_conv] have r2: "(if pair_count = 0 then Ok (False, t2)
                                 else if total_count < pair_count
                                 then Err AssertCountPairOrder
                                 else
                                   bnd (append_delete t2 basic_node key val
                                          (pair_count = total_count))
                                     (\<lambda>(ok, t3).
                                        if \<not> ok then delete_entry n t3 key val
                                        else Ok (True, t3))) = Ok (b, t')"
      .
    show ?thesis
    proof (cases "pair_count = 0")
      case True
      with r2 have "b = False" "t' = t2" by simp_all
      with True tg cnt have "write_target n t key basic_pid basic_node t2
         \<and> count_pair key val (Some basic_node) = Ok (total_count, pair_count)
         \<and> b = (pair_count \<noteq> 0)
         \<and> (if pair_count = 0 then t' = t2
            else \<exists>p. pid (hdr basic_node) = Some p
               \<and> MappingTable_get (mapping_table t') p
                 = Ok (Some (with_pid p
                       (delete_delta basic_node key val (pair_count = total_count)))))"
        by simp
      then show ?thesis by blast
    next
      case False
      with r2 obtain ok t3 where
        ad: "append_delete t2 basic_node key val (pair_count = total_count) = Ok (ok, t3)"
        and r3: "(if \<not> ok then delete_entry n t3 key val else Ok (True, t3)) = Ok (b, t')"
        by (auto simp: bnd_eq_Ok split: if_splits)
      show ?thesis
      proof (cases ok)
        case False
        with r3 have "delete_entry n t3 key val = Ok (b, t')" by simp
        from Suc.IH[OF this] show ?thesis .
      next
        case True
        with r3 have bt: "b = True" "t' = t3" by simp_all
        from ad True obtain p mt where p: "pid (hdr basic_node) = Some p"
          and set: "MappingTable_set (mapping_table t2) p (Some basic_node)
              (Some (delete_delta basic_node key val (pair_count = total_count))) = Ok (True, mt)"
          and t3: "t3 = t2\<lparr>mapping_table := mt\<rparr>"
          by (auto simp: append_delete_def read_pid_def bnd_eq_Ok split: option.splits if_splits)
        have "p \<noteq> NULL_PID"
          using set by (auto simp: MappingTable_set_def MappingTable_get_def Let_def NULL_PID_def GET_TIER1_INDEX_def split: if_splits option.splits)
        from MappingTable_set_Ok(1)[OF set this] t3 bt
        have "MappingTable_get (mapping_table t') p
                 = Ok (Some (with_pid p
                       (delete_delta basic_node key val (pair_count = total_count))))"
          by simp
        with p bt tg cnt \<open>pair_count \<noteq> 0\<close> have "write_target n t key basic_pid basic_node t2
         \<and> count_pair key val (Some basic_node) = Ok (total_count, pair_count)
         \<and> b = (pair_count \<noteq> 0)
         \<and> (if pair_count = 0 then t' = t2
            else \<exists>p. pid (hdr basic_node) = Some p
               \<and> MappingTable_get (mapping_table t') p
                 = Ok (Some (with_pid p
                       (delete_delta basic_node key val (pair_count = total_count)))))"
          by simp
        then show ?thesis by blast
      qed
    qed
  qed
qed

lemmas ex_run_defs = split_def search_def consolidate_def top_def pop_def read_pid_def
  MappingTable_get_def need_split_def key_in_node_def MAX_DELTA_CHAIN_LEN_def

lemma insert_delta_form:
  "record_delta_on INSERT key val basic_node
     (if key_dup then slotuse (hdr basic_node) else slotuse (hdr basic_node) + 1) basic_pid
     (insert_delta basic_pid basic_node key val key_dup)"
  by (simp add: record_delta_on_def insert_delta_def new_RecordDelta_def prepend_def
        Node_ctor_def)

lemma delete_delta_form:
  "record_delta_on DELETE key val basic_node
     (if deletekey then slotuse (hdr basic_node) - 1 else slotuse (hdr basic_node)) p
     (with_pid p (delete_delta basic_node key val deletekey))"
  by (simp add: record_delta_on_def delete_delta_def new_RecordDelta_def prepend_def
        Node_ctor_def with_pid_def)

text \<open>
  C2. In a turn of the loop that has its target leaf chain, \<^verbatim>\<open>insert_entry\<close> returns in that
  turn: false when the unique-keys bit is set and \<^verbatim>\<open>key_is_in\<close> finds the key in the target
  chain, and the tree is as it was then; true in every other case, and then the slot of the
  target holds a record delta \<^verbatim>\<open>INSERT\<close> of the key and the value whose \<^verbatim>\<open>next\<close> is the old head,
  with one more slot in use when the key was not there. And whenever \<^verbatim>\<open>insert_entry\<close> returns,
  some turn had a target and the value is false exactly when the bit is set and the key is
  in that target; when it is true the slot of the target holds that record delta.
\<close>

theorem insert_entry_false_iff:
  "(write_target m t key basic_pid basic_node t2
      \<and> key_is_in key (Some basic_node) {} = Ok key_dup
    \<longrightarrow> (\<exists>t'. insert_entry (Suc m) t key val = Ok (\<not> (HasUniqueKeys t2 \<and> key_dup), t')
          \<and> (if HasUniqueKeys t2 \<and> key_dup then t' = t2
              else \<exists>d. MappingTable_get (mapping_table t') basic_pid = Ok (Some d)
                 \<and> record_delta_on INSERT key val basic_node
                      (if key_dup then slotuse (hdr basic_node)
                       else slotuse (hdr basic_node) + 1) basic_pid d)))
   \<and> (insert_entry n t key val = Ok (b, t')
    \<longrightarrow> (\<exists>m t0 basic_pid basic_node t2 key_dup.
           write_target m t0 key basic_pid basic_node t2
         \<and> key_is_in key (Some basic_node) {} = Ok key_dup
         \<and> b = (\<not> (HasUniqueKeys t2 \<and> key_dup))
         \<and> (if HasUniqueKeys t2 \<and> key_dup then t' = t2
            else \<exists>d. MappingTable_get (mapping_table t') basic_pid = Ok (Some d)
                 \<and> record_delta_on INSERT key val basic_node
                      (if key_dup then slotuse (hdr basic_node)
                       else slotuse (hdr basic_node) + 1) basic_pid d)))"
proof (intro conjI impI)
  assume "write_target m t key basic_pid basic_node t2
      \<and> key_is_in key (Some basic_node) {} = Ok key_dup"
  then have tg: "write_target m t key basic_pid basic_node t2"
    and dup: "key_is_in key (Some basic_node) {} = Ok key_dup" by simp_all
  from insert_entry_at_target[OF tg dup, of val]
  obtain t' where r: "insert_entry (Suc m) t key val = Ok (\<not> (HasUniqueKeys t2 \<and> key_dup), t')"
    and i: "if HasUniqueKeys t2 \<and> key_dup then t' = t2
          else MappingTable_get (mapping_table t') basic_pid
               = Ok (Some (insert_delta basic_pid basic_node key val key_dup))"
    by blast
  have "if HasUniqueKeys t2 \<and> key_dup then t' = t2
        else \<exists>d. MappingTable_get (mapping_table t') basic_pid = Ok (Some d)
           \<and> record_delta_on INSERT key val basic_node
                (if key_dup then slotuse (hdr basic_node)
                 else slotuse (hdr basic_node) + 1) basic_pid d"
  proof (cases "HasUniqueKeys t2 \<and> key_dup")
    case True
    with i show ?thesis by simp
  next
    case False
    with i have "MappingTable_get (mapping_table t') basic_pid
               = Ok (Some (insert_delta basic_pid basic_node key val key_dup))" by simp
    with insert_delta_form[of key val basic_node key_dup basic_pid]
    have "\<exists>d. MappingTable_get (mapping_table t') basic_pid = Ok (Some d)
           \<and> record_delta_on INSERT key val basic_node
                (if key_dup then slotuse (hdr basic_node)
                 else slotuse (hdr basic_node) + 1) basic_pid d" by blast
    with False show ?thesis by auto
  qed
  with r show "\<exists>t'. insert_entry (Suc m) t key val = Ok (\<not> (HasUniqueKeys t2 \<and> key_dup), t')
          \<and> (if HasUniqueKeys t2 \<and> key_dup then t' = t2
              else \<exists>d. MappingTable_get (mapping_table t') basic_pid = Ok (Some d)
                 \<and> record_delta_on INSERT key val basic_node
                      (if key_dup then slotuse (hdr basic_node)
                       else slotuse (hdr basic_node) + 1) basic_pid d)"
    by blast
next
  assume "insert_entry n t key val = Ok (b, t')"
  from insert_entry_returned[OF this] obtain m t0 basic_pid basic_node t2 key_dup where
    tg: "write_target m t0 key basic_pid basic_node t2"
    and dup: "key_is_in key (Some basic_node) {} = Ok key_dup"
    and b: "b = (\<not> (HasUniqueKeys t2 \<and> key_dup))"
    and i: "if HasUniqueKeys t2 \<and> key_dup then t' = t2
            else MappingTable_get (mapping_table t') basic_pid
                 = Ok (Some (insert_delta basic_pid basic_node key val key_dup))"
    by blast
  have "if HasUniqueKeys t2 \<and> key_dup then t' = t2
        else \<exists>d. MappingTable_get (mapping_table t') basic_pid = Ok (Some d)
           \<and> record_delta_on INSERT key val basic_node
                (if key_dup then slotuse (hdr basic_node)
                 else slotuse (hdr basic_node) + 1) basic_pid d"
  proof (cases "HasUniqueKeys t2 \<and> key_dup")
    case True
    with i show ?thesis by simp
  next
    case False
    with i have "MappingTable_get (mapping_table t') basic_pid
               = Ok (Some (insert_delta basic_pid basic_node key val key_dup))" by simp
    with insert_delta_form[of key val basic_node key_dup basic_pid]
    have "\<exists>d. MappingTable_get (mapping_table t') basic_pid = Ok (Some d)
           \<and> record_delta_on INSERT key val basic_node
                (if key_dup then slotuse (hdr basic_node)
                 else slotuse (hdr basic_node) + 1) basic_pid d" by blast
    with False show ?thesis by auto
  qed
  with tg dup b show "\<exists>m t0 basic_pid basic_node t2 key_dup.
           write_target m t0 key basic_pid basic_node t2
         \<and> key_is_in key (Some basic_node) {} = Ok key_dup
         \<and> b = (\<not> (HasUniqueKeys t2 \<and> key_dup))
         \<and> (if HasUniqueKeys t2 \<and> key_dup then t' = t2
            else \<exists>d. MappingTable_get (mapping_table t') basic_pid = Ok (Some d)
                 \<and> record_delta_on INSERT key val basic_node
                      (if key_dup then slotuse (hdr basic_node)
                       else slotuse (hdr basic_node) + 1) basic_pid d)"
    by blast
qed

theorem insert_entry_false_iff_witness:
  "(write_target (Suc (Suc (Suc 0))) ex_uniq_tree 5 0 ex_get_chain ex_uniq_tree
    \<and> key_is_in 5 (Some ex_get_chain) {} = Ok True
    \<and> insert_entry (Suc (Suc (Suc (Suc 0)))) ex_uniq_tree 5 (ItemPointer 9 9)
        = Ok (False, ex_uniq_tree))
   \<and> (write_target (Suc (Suc (Suc 0))) ex_get_tree 7 0 ex_get_chain ex_get_tree
    \<and> key_is_in 7 (Some ex_get_chain) {} = Ok False
    \<and> (\<exists>t' d. insert_entry (Suc (Suc (Suc (Suc 0)))) ex_get_tree 7 (ItemPointer 9 9)
                 = Ok (True, t')
          \<and> MappingTable_get (mapping_table t') 0 = Ok (Some d)
          \<and> record_delta_on INSERT 7 (ItemPointer 9 9) ex_get_chain 2 0 d))"
proof -
  have tg: "write_target (Suc (Suc (Suc 0))) ex_uniq_tree 5 0 ex_get_chain ex_uniq_tree"
    unfolding write_target_def
    by (intro exI[of _ ex_uniq_tree] exI[of _ "[]"])
       (simp add: ex_uniq_tree_def ex_get_tree_def ex_get_chain_def ex_run_defs ex_defs)
  have dup: "key_is_in 5 (Some ex_get_chain) {} = Ok True"
    by (simp add: ex_get_chain_def ex_defs)
  have u: "HasUniqueKeys ex_uniq_tree" by (simp add: ex_uniq_tree_def)
  from insert_entry_false_iff [THEN conjunct1, rule_format, OF conjI [OF tg dup]] u
  have a: "insert_entry (Suc (Suc (Suc (Suc 0)))) ex_uniq_tree 5 (ItemPointer 9 9)
           = Ok (False, ex_uniq_tree)"
    by auto
  have tg': "write_target (Suc (Suc (Suc 0))) ex_get_tree 7 0 ex_get_chain ex_get_tree"
    unfolding write_target_def
    by (intro exI[of _ ex_get_tree] exI[of _ "[]"])
       (simp add: ex_get_tree_def ex_get_chain_def ex_run_defs ex_defs)
  have dup': "key_is_in 7 (Some ex_get_chain) {} = Ok False"
    by (simp add: ex_get_chain_def find_slot.simps slot_read_def ex_defs)
  have nu: "\<not> HasUniqueKeys ex_get_tree" by (simp add: ex_get_tree_def ex_tree_def)
  have su: "slotuse (hdr ex_get_chain) + 1 = 2" by (simp add: ex_get_chain_def ex_defs)
  from insert_entry_false_iff [THEN conjunct1, rule_format, OF conjI [OF tg' dup']] nu su
  have b: "\<exists>t' d. insert_entry (Suc (Suc (Suc (Suc 0)))) ex_get_tree 7 (ItemPointer 9 9)
                 = Ok (True, t')
          \<and> MappingTable_get (mapping_table t') 0 = Ok (Some d)
          \<and> record_delta_on INSERT 7 (ItemPointer 9 9) ex_get_chain 2 0 d"
    by auto
  from tg dup a tg' dup' b show ?thesis by blast
qed

text \<open>
  C3. In a turn of the loop that has its target leaf chain, whose head carries its PID,
  \<^verbatim>\<open>delete_entry\<close> returns in that turn: false when the second component of \<^verbatim>\<open>count_pair\<close> on
  the target is zero, and the tree is as it was then; true otherwise, and then the slot of
  the target holds a record delta \<^verbatim>\<open>DELETE\<close> of the key and the value whose \<^verbatim>\<open>next\<close> is the old
  head, with one slot less in use when every visible value of the key is the value. And
  whenever \<^verbatim>\<open>delete_entry\<close> returns, some turn had a target and the value is false exactly
  when that component is zero; when it is true the slot named by the head holds that record
  delta.
\<close>

theorem delete_entry_false_iff:
  "(write_target m t key basic_pid basic_node t2
      \<and> count_pair key val (Some basic_node) = Ok (total_count, pair_count)
      \<and> pid (hdr basic_node) = Some basic_pid
    \<longrightarrow> (\<exists>t'. delete_entry (Suc m) t key val = Ok (pair_count \<noteq> 0, t')
      \<and> (if pair_count = 0 then t' = t2
          else \<exists>d. MappingTable_get (mapping_table t') basic_pid = Ok (Some d)
             \<and> record_delta_on DELETE key val basic_node
                  (if pair_count = total_count then slotuse (hdr basic_node) - 1
                   else slotuse (hdr basic_node)) basic_pid d)))
   \<and> (delete_entry n t key val = Ok (b, t')
    \<longrightarrow> (\<exists>m t0 basic_pid basic_node t2 total_count pair_count.
           write_target m t0 key basic_pid basic_node t2
         \<and> count_pair key val (Some basic_node) = Ok (total_count, pair_count)
         \<and> b = (pair_count \<noteq> 0)
         \<and> (if pair_count = 0 then t' = t2
            else \<exists>p d. pid (hdr basic_node) = Some p
               \<and> MappingTable_get (mapping_table t') p = Ok (Some d)
               \<and> record_delta_on DELETE key val basic_node
                    (if pair_count = total_count then slotuse (hdr basic_node) - 1
                     else slotuse (hdr basic_node)) p d)))"
proof (intro conjI impI)
  assume "write_target m t key basic_pid basic_node t2
      \<and> count_pair key val (Some basic_node) = Ok (total_count, pair_count)
      \<and> pid (hdr basic_node) = Some basic_pid"
  then have tg: "write_target m t key basic_pid basic_node t2"
    and cnt: "count_pair key val (Some basic_node) = Ok (total_count, pair_count)"
    and pd: "pid (hdr basic_node) = Some basic_pid" by simp_all
  from delete_entry_at_target[OF tg cnt pd]
  obtain t' where r: "delete_entry (Suc m) t key val = Ok (pair_count \<noteq> 0, t')"
    and i: "if pair_count = 0 then t' = t2
          else MappingTable_get (mapping_table t') basic_pid
               = Ok (Some (with_pid basic_pid
                     (delete_delta basic_node key val (pair_count = total_count))))"
    by blast
  have "if pair_count = 0 then t' = t2
          else \<exists>d. MappingTable_get (mapping_table t') basic_pid = Ok (Some d)
             \<and> record_delta_on DELETE key val basic_node
                  (if pair_count = total_count then slotuse (hdr basic_node) - 1
                   else slotuse (hdr basic_node)) basic_pid d"
  proof (cases "pair_count = 0")
    case True
    with i show ?thesis by simp
  next
    case False
    with i have "MappingTable_get (mapping_table t') basic_pid
               = Ok (Some (with_pid basic_pid
                     (delete_delta basic_node key val (pair_count = total_count))))" by simp
    with delete_delta_form[of key val basic_node "pair_count = total_count" basic_pid]
    have "\<exists>d. MappingTable_get (mapping_table t') basic_pid = Ok (Some d)
             \<and> record_delta_on DELETE key val basic_node
                  (if pair_count = total_count then slotuse (hdr basic_node) - 1
                   else slotuse (hdr basic_node)) basic_pid d" by blast
    with False show ?thesis by auto
  qed
  with r show "\<exists>t'. delete_entry (Suc m) t key val = Ok (pair_count \<noteq> 0, t')
      \<and> (if pair_count = 0 then t' = t2
          else \<exists>d. MappingTable_get (mapping_table t') basic_pid = Ok (Some d)
             \<and> record_delta_on DELETE key val basic_node
                  (if pair_count = total_count then slotuse (hdr basic_node) - 1
                   else slotuse (hdr basic_node)) basic_pid d)"
    by blast
next
  assume "delete_entry n t key val = Ok (b, t')"
  from delete_entry_returned[OF this]
  obtain m t0 basic_pid basic_node t2 total_count pair_count where
    tg: "write_target m t0 key basic_pid basic_node t2"
    and cnt: "count_pair key val (Some basic_node) = Ok (total_count, pair_count)"
    and b: "b = (pair_count \<noteq> 0)"
    and i: "if pair_count = 0 then t' = t2
            else \<exists>p. pid (hdr basic_node) = Some p
               \<and> MappingTable_get (mapping_table t') p
                 = Ok (Some (with_pid p
                       (delete_delta basic_node key val (pair_count = total_count))))"
    by blast
  have "if pair_count = 0 then t' = t2
            else \<exists>p d. pid (hdr basic_node) = Some p
               \<and> MappingTable_get (mapping_table t') p = Ok (Some d)
               \<and> record_delta_on DELETE key val basic_node
                    (if pair_count = total_count then slotuse (hdr basic_node) - 1
                     else slotuse (hdr basic_node)) p d"
  proof (cases "pair_count = 0")
    case True
    with i show ?thesis by simp
  next
    case False
    with i obtain p where p: "pid (hdr basic_node) = Some p"
      "MappingTable_get (mapping_table t') p
                 = Ok (Some (with_pid p
                       (delete_delta basic_node key val (pair_count = total_count))))"
      by auto
    with delete_delta_form[of key val basic_node "pair_count = total_count" p]
    have "\<exists>p d. pid (hdr basic_node) = Some p
               \<and> MappingTable_get (mapping_table t') p = Ok (Some d)
               \<and> record_delta_on DELETE key val basic_node
                    (if pair_count = total_count then slotuse (hdr basic_node) - 1
                     else slotuse (hdr basic_node)) p d" by blast
    with False show ?thesis by auto
  qed
  with tg cnt b show "\<exists>m t0 basic_pid basic_node t2 total_count pair_count.
           write_target m t0 key basic_pid basic_node t2
         \<and> count_pair key val (Some basic_node) = Ok (total_count, pair_count)
         \<and> b = (pair_count \<noteq> 0)
         \<and> (if pair_count = 0 then t' = t2
            else \<exists>p d. pid (hdr basic_node) = Some p
               \<and> MappingTable_get (mapping_table t') p = Ok (Some d)
               \<and> record_delta_on DELETE key val basic_node
                    (if pair_count = total_count then slotuse (hdr basic_node) - 1
                     else slotuse (hdr basic_node)) p d)"
    by blast
qed

theorem delete_entry_false_iff_witness:
  "(write_target (Suc (Suc (Suc 0))) ex_get_tree 5 0 ex_get_chain ex_get_tree
    \<and> count_pair 5 (ItemPointer 9 9) (Some ex_get_chain) = Ok (2, 0)
    \<and> pid (hdr ex_get_chain) = Some 0
    \<and> delete_entry (Suc (Suc (Suc (Suc 0)))) ex_get_tree 5 (ItemPointer 9 9)
        = Ok (False, ex_get_tree))
   \<and> (count_pair 5 (ItemPointer 1 0) (Some ex_get_chain) = Ok (2, 1)
    \<and> (\<exists>t' d. delete_entry (Suc (Suc (Suc (Suc 0)))) ex_get_tree 5 (ItemPointer 1 0)
                 = Ok (True, t')
          \<and> MappingTable_get (mapping_table t') 0 = Ok (Some d)
          \<and> record_delta_on DELETE 5 (ItemPointer 1 0) ex_get_chain 1 0 d))"
proof -
  have tg: "write_target (Suc (Suc (Suc 0))) ex_get_tree 5 0 ex_get_chain ex_get_tree"
    unfolding write_target_def
    by (intro exI[of _ ex_get_tree] exI[of _ "[]"])
       (simp add: ex_get_tree_def ex_get_chain_def ex_run_defs ex_defs)
  have cnt: "count_pair 5 (ItemPointer 9 9) (Some ex_get_chain) = Ok (2, 0)"
    by (simp add: ex_get_chain_def count_pair_def find_slot.simps value_equal_def ex_defs)
  have pd: "pid (hdr ex_get_chain) = Some 0"
    by (simp add: ex_get_chain_def ex_defs)
  from delete_entry_false_iff [THEN conjunct1, rule_format, OF conjI [OF tg conjI [OF cnt pd]]]
  have a: "delete_entry (Suc (Suc (Suc (Suc 0)))) ex_get_tree 5 (ItemPointer 9 9)
           = Ok (False, ex_get_tree)"
    by auto
  have cnt': "count_pair 5 (ItemPointer 1 0) (Some ex_get_chain) = Ok (2, 1)"
    by (simp add: ex_get_chain_def count_pair_def find_slot.simps value_equal_def ex_defs)
  have su: "slotuse (hdr ex_get_chain) = 1" by (simp add: ex_get_chain_def ex_defs)
  from delete_entry_false_iff [THEN conjunct1, rule_format, OF conjI [OF tg conjI [OF cnt' pd]]]
    su
  have b: "\<exists>t' d. delete_entry (Suc (Suc (Suc (Suc 0)))) ex_get_tree 5 (ItemPointer 1 0)
                 = Ok (True, t')
          \<and> MappingTable_get (mapping_table t') 0 = Ok (Some d)
          \<and> record_delta_on DELETE 5 (ItemPointer 1 0) ex_get_chain 1 0 d"
    by auto
  from tg cnt pd a cnt' b show ?thesis by blast
qed

subsection \<open>Chain lengths\<close>

lemma MappingTable_set_get:
  assumes "MappingTable_set mt p expected addr = Ok (True, mt')"
  shows "MappingTable_get mt' q
         = (if q = p then Ok (map_option (with_pid p) addr) else MappingTable_get mt q)"
    and "MappingTable_get mt p = Ok expected"
    and "nextPid mt' = nextPid mt"
    and "p \<noteq> NULL_PID"
proof -
  have a: "GET_TIER1_INDEX NULL_PID < 0"
    by (simp add: GET_TIER1_INDEX_def NULL_PID_def)
  from assms a show np: "p \<noteq> NULL_PID"
    by (auto simp: MappingTable_set_def Let_def split: if_splits)
  from assms np show "MappingTable_get mt' q
         = (if q = p then Ok (map_option (with_pid p) addr) else MappingTable_get mt q)"
    using tier_split[of q p]
    by (auto simp: MappingTable_set_def MappingTable_get_def Let_def
        split: if_splits option.splits)
  from assms np show "MappingTable_get mt p = Ok expected"
    by (auto simp: MappingTable_set_def MappingTable_get_def Let_def
        split: if_splits option.splits)
  from assms show "nextPid mt' = nextPid mt"
    by (auto simp: MappingTable_set_def Let_def split: if_splits option.splits)
qed

lemma MappingTable_set_False:
  "MappingTable_set mt p expected addr = Ok (False, mt') \<Longrightarrow> mt' = mt"
  by (auto simp: MappingTable_set_def Let_def split: if_splits option.splits)

lemma split_loop_turn:
  assumes run: "split_loop (Suc n) t key path visited pid0 node = Ok t'"
    and ns: "need_split t node"
    and retry: "\<And>q piv t1 new_node mt2 old_ptr mt3 node'.
        create_sibling t node = Ok (q, piv, t1)
        \<Longrightarrow> MappingTable_get (mapping_table t1) q = Ok (Some new_node)
        \<Longrightarrow> MappingTable_set (mapping_table t1) pid0 (Some node)
             (Some (new_SplitDelta node piv q q (low_key (hdr node)) (low_key (hdr new_node))
                      (inf_lowkey (hdr node)) False)) = Ok (False, mt2)
        \<Longrightarrow> MappingTable_get mt2 q = Ok old_ptr
        \<Longrightarrow> MappingTable_set mt2 q old_ptr None = Ok (True, mt3)
        \<Longrightarrow> MappingTable_get mt3 pid0 = Ok (Some node')
        \<Longrightarrow> split_loop n (t1\<lparr>mapping_table := mt3\<rparr>) key path visited pid0 node' = Ok t'
        \<Longrightarrow> R"
    and cas: "\<And>q piv t1 new_node mt2 r t3.
        create_sibling t node = Ok (q, piv, t1)
        \<Longrightarrow> MappingTable_get (mapping_table t1) q = Ok (Some new_node)
        \<Longrightarrow> MappingTable_set (mapping_table t1) pid0 (Some node)
             (Some (new_SplitDelta node piv q q (low_key (hdr node)) (low_key (hdr new_node))
                      (inf_lowkey (hdr node)) False)) = Ok (True, mt2)
        \<Longrightarrow> consolidate n (t1\<lparr>mapping_table := mt2\<rparr>) pid0 = Ok (r, t3)
        \<Longrightarrow> (if path = [] then create_root t3 pid0 q piv = Ok t'
             else \<exists>pid' path' t4 node''.
                 split_redo n t3 key path
                   (visited @ [if key_greaterequal key piv False then q else pid0])
                   piv q new_node = Ok (pid', path', t4)
               \<and> MappingTable_get (mapping_table t4) pid' = Ok (Some node'')
               \<and> (if \<not> need_split t4 node''
                   then \<exists>r'. consolidate n t4 pid' = Ok (r', t')
                   else split_loop n t4 key path'
                          (visited @ [if key_greaterequal key piv False then q else pid0])
                          pid' node'' = Ok t'))
        \<Longrightarrow> R"
  shows R
proof (cases "create_sibling t node")
  case (Ok x)
  obtain q piv t1 where x: "x = (q, piv, t1)" by (cases x) auto
  note c = Ok[unfolded x]
  from c have c': "(if is_leaf (hdr node) then create_leaf t node else create_inner t node)
                   = Ok (q, piv, t1)" by (simp add: create_sibling_def)
  show ?thesis
  proof (cases "MappingTable_get (mapping_table t1) q")
    case (Ok y)
    note g = Ok
    show ?thesis
    proof (cases y)
      case None
      with run ns c' g show ?thesis by simp
    next
      case (Some new_node)
      note g = g[unfolded Some]
      show ?thesis
      proof (cases "MappingTable_set (mapping_table t1) pid0 (Some node)
             (Some (new_SplitDelta node piv q q (low_key (hdr node)) (low_key (hdr new_node))
                      (inf_lowkey (hdr node)) False))")
        case (Ok z)
        obtain ok mt2 where z: "z = (ok, mt2)" by (cases z) auto
        note s = Ok[unfolded z]
        show ?thesis
        proof (cases ok)
          case False
          with s have s: "MappingTable_set (mapping_table t1) pid0 (Some node)
             (Some (new_SplitDelta node piv q q (low_key (hdr node)) (low_key (hdr new_node))
                      (inf_lowkey (hdr node)) False)) = Ok (False, mt2)" by simp
          from run ns c' g s obtain old_ptr mt3 node' where
            "MappingTable_get mt2 q = Ok old_ptr"
            "MappingTable_set mt2 q old_ptr None = Ok (True, mt3)"
            "MappingTable_get mt3 pid0 = Ok (Some node')"
            "split_loop n (t1\<lparr>mapping_table := mt3\<rparr>) key path visited pid0 node' = Ok t'"
            by (auto simp: bnd_eq_Ok Let_def split: option.splits if_splits)
          from retry[OF c g s this] show ?thesis .
        next
          case True
          with s have s: "MappingTable_set (mapping_table t1) pid0 (Some node)
             (Some (new_SplitDelta node piv q q (low_key (hdr node)) (low_key (hdr new_node))
                      (inf_lowkey (hdr node)) False)) = Ok (True, mt2)" by simp
          from run ns c' g s obtain r t3 where
            co: "consolidate n (t1\<lparr>mapping_table := mt2\<rparr>) pid0 = Ok (r, t3)"
            and rest: "(if path = [] then create_root t3 pid0 q piv = Ok t'
             else \<exists>pid' path' t4 node''.
                 split_redo n t3 key path
                   (visited @ [if key_greaterequal key piv False then q else pid0])
                   piv q new_node = Ok (pid', path', t4)
               \<and> MappingTable_get (mapping_table t4) pid' = Ok (Some node'')
               \<and> (if \<not> need_split t4 node''
                   then \<exists>r'. consolidate n t4 pid' = Ok (r', t')
                   else split_loop n t4 key path'
                          (visited @ [if key_greaterequal key piv False then q else pid0])
                          pid' node'' = Ok t'))"
            by (auto simp: bnd_eq_Ok Let_def split: option.splits if_splits)
          from cas[OF c g s co rest] show ?thesis .
        qed
      qed (use run ns c' g in simp_all)
    qed
  qed (use run ns c' in simp_all)
qed (use run ns in \<open>simp_all add: create_sibling_def\<close>)

lemma chain_len_ok_with_pid [simp]: "chain_len_ok (with_pid p node) = chain_len_ok node"
  by (cases node) (simp_all add: with_pid_def)

lemma table_len_add:
  assumes "table_len_ok mt" "MappingTable_add mt (Some new) = Ok (q, mt')" "chain_len_ok new"
  shows "table_len_ok mt'"
  unfolding table_len_ok_def
proof (intro allI impI)
  fix p node assume g: "MappingTable_get mt' p = Ok (Some node)"
  show "chain_len_ok node"
  proof (cases "p = q")
    case True
    with g MappingTable_add_Ok(2)[OF assms(2)] assms(3) show ?thesis by auto
  next
    case False
    with g MappingTable_add_Ok(4)[OF assms(2), of p] assms(1) show ?thesis
      by (simp add: table_len_ok_def)
  qed
qed

lemma table_len_set:
  assumes inv: "table_len_ok mt"
    and set: "MappingTable_set mt p expected addr = Ok (ok, mt')"
    and new: "\<forall>old new. expected = Some old \<longrightarrow> addr = Some new \<longrightarrow> chain_len_ok old
              \<longrightarrow> chain_len_ok new"
    and ex: "addr \<noteq> None \<longrightarrow> expected \<noteq> None"
  shows "table_len_ok mt'"
proof (cases ok)
  case False
  with set MappingTable_set_False[of mt p expected addr mt'] inv show ?thesis by simp
next
  case True
  with set have set': "MappingTable_set mt p expected addr = Ok (True, mt')" by simp
  note g = MappingTable_set_get[OF set']
  show ?thesis
    unfolding table_len_ok_def
  proof (intro allI impI)
    fix q node assume a: "MappingTable_get mt' q = Ok (Some node)"
    show "chain_len_ok node"
    proof (cases "q = p")
      case False
      with a g(1)[of q] inv show ?thesis by (simp add: table_len_ok_def)
    next
      case True
      with a g(1)[of p] obtain n where n: "addr = Some n" "node = with_pid p n" by auto
      with ex obtain old where old: "expected = Some old" by auto
      with g(2) inv have "chain_len_ok old" by (simp add: table_len_ok_def)
      with new old n show ?thesis by simp
    qed
  qed
qed

lemma chain_len_ok_builders:
  "chain_len_ok (insert_delta p node key val dup) = chain_len_ok node"
  "chain_len_ok (delete_delta node key val dk) = chain_len_ok node"
  "chain_len_ok (new_SplitDelta node Kp pQ nl lk hk il ih) = chain_len_ok node"
  "chain_len_ok (new_IndexEntryDelta node Kp Kq Kq_inf pQ nl lk hk il ih) = chain_len_ok node"
  by (simp_all add: insert_delta_def delete_delta_def new_RecordDelta_def new_SplitDelta_def
        new_IndexEntryDelta_def prepend_def Node_ctor_def)

lemma consolidated_node_len:
  "consolidated_node t orinode = Ok new \<Longrightarrow> chain_len_ok new"
  by (auto simp: consolidated_node_def bnd_eq_Ok Node_ctor_def split: if_splits)

lemma consolidate_loop_len:
  assumes "table_len_ok (mapping_table t)"
    and "consolidate_loop n t p orinode = Ok (r, t')"
  shows "table_len_ok (mapping_table t')"
  using assms
proof (induction n arbitrary: orinode)
  case 0
  then show ?case by simp
next
  case (Suc n)
  note inv = Suc.prems(1)
  show ?case
  proof (cases "MAX_DELTA_CHAIN_LEN < delta_list_len (hdr orinode)")
    case False
    with Suc.prems show ?thesis by simp
  next
    case True
    with Suc.prems(2) obtain new_node ok mt where
      cn: "consolidated_node t orinode = Ok new_node"
      and set: "MappingTable_set (mapping_table t) p (Some orinode) (Some new_node) = Ok (ok, mt)"
      and rest: "(if ok then
                    bnd (garbage_add n (garbage_table t) orinode)
                      (\<lambda>gt. Ok (Some (with_pid p new_node),
                                 t\<lparr>mapping_table := mt, garbage_table := gt\<rparr>))
                  else
                    bnd (MappingTable_get (mapping_table t) p)
                      (\<lambda>node. case node of
                           None \<Rightarrow> Err NullDeref
                         | Some orinode' \<Rightarrow>
                             if need_split t orinode' then Ok (None, t)
                             else consolidate_loop n t p orinode')) = Ok (r, t')"
      by (auto simp: bnd_eq_Ok)
    from table_len_set[OF inv set] consolidated_node_len[OF cn]
    have mt: "table_len_ok mt" by simp
    show ?thesis
    proof (cases ok)
      case True
      with rest mt show ?thesis by (auto simp: bnd_eq_Ok)
    next
      case False
      with rest obtain orinode' where
        r: "(if need_split t orinode' then Ok (None, t)
             else consolidate_loop n t p orinode') = Ok (r, t')"
        by (auto simp: bnd_eq_Ok split: option.splits)
      show ?thesis
      proof (cases "need_split t orinode'")
        case True
        with r inv show ?thesis by simp
      next
        case False
        with r have "consolidate_loop n t p orinode' = Ok (r, t')" by simp
        from Suc.IH[OF inv this] show ?thesis .
      qed
    qed
  qed
qed

lemma consolidate_len:
  assumes "table_len_ok (mapping_table t)" "consolidate n t p = Ok (r, t')"
  shows "table_len_ok (mapping_table t')"
proof -
  from assms(2) obtain orinode where "consolidate_loop n t p orinode = Ok (r, t')"
    by (auto simp: consolidate_def bnd_eq_Ok split: option.splits if_splits)
  from consolidate_loop_len[OF assms(1) this] show ?thesis .
qed

lemma create_sibling_len:
  assumes "table_len_ok (mapping_table t)" "create_sibling t node = Ok (q, piv, t1)"
  shows "table_len_ok (mapping_table t1)"
proof -
  from assms(2) obtain new where
    "MappingTable_add (mapping_table t) (Some new) = Ok (q, mapping_table t1)"
    "chain_len_ok new"
    unfolding create_sibling_def create_leaf_def create_inner_def Let_def
    by (auto simp: bnd_eq_Ok Node_ctor_def split: if_splits)
  from table_len_add[OF assms(1) this] show ?thesis .
qed

lemma create_root_len:
  assumes "table_len_ok (mapping_table t)" "create_root t cur new_pid piv = Ok t1"
  shows "table_len_ok (mapping_table t1)"
proof -
  from assms(2) obtain new q where
    "MappingTable_add (mapping_table t) (Some new) = Ok (q, mapping_table t1)"
    "chain_len_ok new"
    unfolding create_root_def Let_def
    by (auto simp: bnd_eq_Ok Node_ctor_def split: if_splits)
  from table_len_add[OF assms(1) this] show ?thesis .
qed

lemma split_redo_len:
  "table_len_ok (mapping_table t)
    \<Longrightarrow> split_redo n t key path visited Kp pQ new_node = Ok (pid', path', t')
    \<Longrightarrow> table_len_ok (mapping_table t')"
proof (induction n arbitrary: path)
  case 0
  then show ?case by simp
next
  case (Suc n)
  note inv = Suc.prems(1)
  from Suc.prems(2) obtain pn path1 check_split_pid ok mt where
    set: "MappingTable_set (mapping_table t) check_split_pid (Some pn)
                (Some (new_IndexEntryDelta pn Kp (high_key (hdr new_node))
                   (inf_highkey (hdr new_node)) pQ (next_leafnode (hdr pn))
                   (low_key (hdr pn)) (high_key (hdr pn))
                   (inf_lowkey (hdr pn)) (inf_highkey (hdr pn)))) = Ok (ok, mt)"
    and r: "(if ok then
               bnd (pop path1) (\<lambda>path''. Ok (check_split_pid, path'', t\<lparr>mapping_table := mt\<rparr>))
             else split_redo n t key path1 visited Kp pQ new_node) = Ok (pid', path', t')"
    by (auto simp: bnd_eq_Ok Let_def)
  from table_len_set[OF inv set] have mt: "table_len_ok mt"
    by (simp add: chain_len_ok_builders)
  show ?case
  proof (cases ok)
    case False
    with r have "split_redo n t key path1 visited Kp pQ new_node = Ok (pid', path', t')"
      by simp
    from Suc.IH[OF inv this] show ?thesis .
  next
    case True
    with r mt show ?thesis by (auto simp: bnd_eq_Ok)
  qed
qed

lemma split_loop_len:
  "table_len_ok (mapping_table t)
    \<Longrightarrow> split_loop n t key path visited pid0 node = Ok t'
    \<Longrightarrow> table_len_ok (mapping_table t')"
proof (induction n arbitrary: t path visited pid0 node)
  case 0
  then show ?case by simp
next
  case (Suc n)
  note inv = Suc.prems(1)
  show ?case
  proof (cases "need_split t node")
    case False
    with Suc.prems show ?thesis by simp
  next
    case True
    show ?thesis
    proof (rule split_loop_turn[OF Suc.prems(2) True])
      fix q piv t1 new_node mt2 old_ptr mt3 node'
      assume c: "create_sibling t node = Ok (q, piv, t1)"
        and s: "MappingTable_set (mapping_table t1) pid0 (Some node)
             (Some (new_SplitDelta node piv q q (low_key (hdr node)) (low_key (hdr new_node))
                      (inf_lowkey (hdr node)) False)) = Ok (False, mt2)"
        and s3: "MappingTable_set mt2 q old_ptr None = Ok (True, mt3)"
        and l: "split_loop n (t1\<lparr>mapping_table := mt3\<rparr>) key path visited pid0 node' = Ok t'"
      from MappingTable_set_False[OF s] create_sibling_len[OF inv c]
      have "table_len_ok mt2" by simp
      from table_len_set[OF this s3] have "table_len_ok mt3" by simp
      then have "table_len_ok (mapping_table (t1\<lparr>mapping_table := mt3\<rparr>))" by simp
      from Suc.IH[OF this l] show ?thesis .
    next
      fix q piv t1 new_node mt2 r t3
      assume c: "create_sibling t node = Ok (q, piv, t1)"
        and s: "MappingTable_set (mapping_table t1) pid0 (Some node)
             (Some (new_SplitDelta node piv q q (low_key (hdr node)) (low_key (hdr new_node))
                      (inf_lowkey (hdr node)) False)) = Ok (True, mt2)"
        and co: "consolidate n (t1\<lparr>mapping_table := mt2\<rparr>) pid0 = Ok (r, t3)"
        and rest: "if path = [] then create_root t3 pid0 q piv = Ok t'
             else \<exists>pid' path' t4 node''.
                 split_redo n t3 key path
                   (visited @ [if key_greaterequal key piv False then q else pid0])
                   piv q new_node = Ok (pid', path', t4)
               \<and> MappingTable_get (mapping_table t4) pid' = Ok (Some node'')
               \<and> (if \<not> need_split t4 node''
                   then \<exists>r'. consolidate n t4 pid' = Ok (r', t')
                   else split_loop n t4 key path'
                          (visited @ [if key_greaterequal key piv False then q else pid0])
                          pid' node'' = Ok t')"
      from table_len_set[OF create_sibling_len[OF inv c] s]
      have "table_len_ok mt2" by (simp add: chain_len_ok_builders)
      then have "table_len_ok (mapping_table (t1\<lparr>mapping_table := mt2\<rparr>))" by simp
      from consolidate_len[OF this co] have t3: "table_len_ok (mapping_table t3)" .
      show ?thesis
      proof (cases "path = []")
        case True
        with rest create_root_len[OF t3] show ?thesis by simp
      next
        case False
        with rest obtain pid' path' t4 node'' where
          sr: "split_redo n t3 key path
                   (visited @ [if key_greaterequal key piv False then q else pid0])
                   piv q new_node = Ok (pid', path', t4)"
          and r4: "if \<not> need_split t4 node''
                   then \<exists>r'. consolidate n t4 pid' = Ok (r', t')
                   else split_loop n t4 key path'
                          (visited @ [if key_greaterequal key piv False then q else pid0])
                          pid' node'' = Ok t'"
          by auto
        from split_redo_len[OF t3 sr] have t4: "table_len_ok (mapping_table t4)" .
        show ?thesis
        proof (cases "need_split t4 node''")
          case False
          with r4 consolidate_len[OF t4] show ?thesis by auto
        next
          case True
          with r4 Suc.IH[OF t4] show ?thesis by auto
        qed
      qed
    qed
  qed
qed

lemma split_len:
  assumes "table_len_ok (mapping_table t)" "split n t key = Ok t'"
  shows "table_len_ok (mapping_table t')"
proof -
  from assms(2) obtain path pid0 node where
    "split_loop n t key path [] pid0 node = Ok t'"
    by (auto simp: split_def bnd_eq_Ok split: option.splits)
  from split_loop_len[OF assms(1) this] show ?thesis .
qed

lemma insert_entry_len:
  "table_len_ok (mapping_table t) \<Longrightarrow> insert_entry n t key val = Ok (b, t')
   \<Longrightarrow> table_len_ok (mapping_table t')"
proof (induction n arbitrary: t)
  case 0
  then show ?case by simp
next
  case (Suc n)
  from Suc.prems(2) obtain t1 path basic_pid node t2 where
    sp: "split n t key = Ok t1"
    and co: "consolidate n t1 basic_pid = Ok (node, t2)"
    and rest: "(case node of
                     None \<Rightarrow> insert_entry n t2 key val
                   | Some basic_node \<Rightarrow>
                       if \<not> key_in_node key basic_node then insert_entry n t2 key val
                       else
                         bnd (key_is_in key (Some basic_node) {})
                           (\<lambda>key_dup.
                              if HasUniqueKeys t2 \<and> key_dup then Ok (False, t2)
                              else
                                bnd (MappingTable_set (mapping_table t2) basic_pid
                                       (Some basic_node)
                                       (Some (insert_delta basic_pid basic_node key val
                                                key_dup)))
                                  (\<lambda>(ok, mt).
                                     if \<not> ok then insert_entry n t2 key val
                                     else Ok (True, t2\<lparr>mapping_table := mt\<rparr>)))) = Ok (b, t')"
    by (auto simp: bnd_eq_Ok)
  from consolidate_len[OF split_len[OF Suc.prems(1) sp] co]
  have t2: "table_len_ok (mapping_table t2)" .
  show ?case
  proof (cases node)
    case None
    with rest Suc.IH[OF t2] show ?thesis by simp
  next
    case (Some basic_node)
    show ?thesis
    proof (cases "key_in_node key basic_node")
      case False
      with rest Some Suc.IH[OF t2] show ?thesis by simp
    next
      case True
      with rest Some obtain key_dup where
        r2: "(if HasUniqueKeys t2 \<and> key_dup then Ok (False, t2)
              else
                bnd (MappingTable_set (mapping_table t2) basic_pid (Some basic_node)
                       (Some (insert_delta basic_pid basic_node key val key_dup)))
                  (\<lambda>(ok, mt).
                     if \<not> ok then insert_entry n t2 key val
                     else Ok (True, t2\<lparr>mapping_table := mt\<rparr>))) = Ok (b, t')"
        by (auto simp: bnd_eq_Ok)
      show ?thesis
      proof (cases "HasUniqueKeys t2 \<and> key_dup")
        case True
        with r2 t2 show ?thesis by auto
      next
        case False
        with r2 obtain ok mt where
          set: "MappingTable_set (mapping_table t2) basic_pid (Some basic_node)
                  (Some (insert_delta basic_pid basic_node key val key_dup)) = Ok (ok, mt)"
          and r3: "(if \<not> ok then insert_entry n t2 key val
                    else Ok (True, t2\<lparr>mapping_table := mt\<rparr>)) = Ok (b, t')"
          by (auto simp: bnd_eq_Ok)
        from table_len_set[OF t2 set] have "table_len_ok mt"
          by (simp add: chain_len_ok_builders)
        with r3 Suc.IH[OF t2] show ?thesis by (auto split: if_splits)
      qed
    qed
  qed
qed

lemma delete_entry_len:
  "table_len_ok (mapping_table t) \<Longrightarrow> delete_entry n t key val = Ok (b, t')
   \<Longrightarrow> table_len_ok (mapping_table t')"
proof (induction n arbitrary: t)
  case 0
  then show ?case by simp
next
  case (Suc n)
  from Suc.prems(2) obtain t1 basic_pid basic_node t2 where
    sp: "split n t key = Ok t1"
    and co: "consolidate n t1 basic_pid = Ok (Some basic_node, t2)"
    and rest: "(if \<not> key_in_node key basic_node then delete_entry n t2 key val
                else
                  bnd (count_pair key val (Some basic_node))
                    (\<lambda>tv_count_pair.
                       if snd tv_count_pair = 0 then Ok (False, t2)
                       else if fst tv_count_pair < snd tv_count_pair
                       then Err AssertCountPairOrder
                       else
                         bnd (append_delete t2 basic_node key val
                                (snd tv_count_pair = fst tv_count_pair))
                           (\<lambda>(ok, t3).
                              if \<not> ok then delete_entry n t3 key val
                              else Ok (True, t3)))) = Ok (b, t')"
    by (auto simp: bnd_eq_Ok split: option.splits)
  from consolidate_len[OF split_len[OF Suc.prems(1) sp] co]
  have t2: "table_len_ok (mapping_table t2)" .
  show ?case
  proof (cases "key_in_node key basic_node")
    case False
    with rest Suc.IH[OF t2] show ?thesis by simp
  next
    case True
    with rest obtain tv where
      cnt0: "count_pair key val (Some basic_node) = Ok tv"
      and r2: "(if snd tv = 0 then Ok (False, t2)
            else if fst tv < snd tv then Err AssertCountPairOrder
            else
              bnd (append_delete t2 basic_node key val (snd tv = fst tv))
                (\<lambda>(ok, t3). if \<not> ok then delete_entry n t3 key val else Ok (True, t3)))
           = Ok (b, t')"
      by (auto simp: bnd_eq_Ok)
    show ?thesis
    proof (cases "snd tv = 0")
      case True
      with r2 t2 show ?thesis by auto
    next
      case False
      with r2 obtain ok t3 where
        ad: "append_delete t2 basic_node key val (snd tv = fst tv) = Ok (ok, t3)"
        and r3: "(if \<not> ok then delete_entry n t3 key val else Ok (True, t3)) = Ok (b, t')"
        by (auto simp: bnd_eq_Ok split: if_splits)
      from ad obtain p mt where
        set: "MappingTable_set (mapping_table t2) p (Some basic_node)
                (Some (delete_delta basic_node key val (snd tv = fst tv))) = Ok (ok, mt)"
        and t3: "mapping_table t3 = (if ok then mt else mapping_table t2)"
        by (auto simp: append_delete_def bnd_eq_Ok split: if_splits)
      from table_len_set[OF t2 set] have "table_len_ok mt"
        by (simp add: chain_len_ok_builders)
      with t3 t2 have "table_len_ok (mapping_table t3)" by simp
      with r3 Suc.IH[of t3] show ?thesis by (auto split: if_splits)
    qed
  qed
qed

lemma ctor_len:
  assumes "BWTree_ctor unique ksize vsize w = Ok t"
  shows "table_len_ok (mapping_table t)"
proof -
  have e: "table_len_ok (MappingTable_ctor :: 'a MappingTable)"
    by (auto simp: table_len_ok_def MappingTable_ctor_def MappingTable_get_def Let_def
        split: if_splits)
  from assms obtain q where
    "MappingTable_add MappingTable_ctor (Some (new_LeafNode NULL_PID w w True True))
     = Ok (q, mapping_table t)"
    by (auto simp: BWTree_ctor_def Let_def bnd_eq_Ok split: if_splits)
  from table_len_add[OF e this] show ?thesis
    by (simp add: new_LeafNode_def Node_ctor_def)
qed

lemma reachable_len: "reachable t \<Longrightarrow> table_len_ok (mapping_table t)"
proof (induction rule: reachable.induct)
  case (ctor unique ksize vsize w t)
  then show ?case by (rule ctor_len)
next
  case (insert t n key val b t')
  from insert_entry_len[OF insert.IH insert.hyps(2)] show ?case .
next
  case (delete t n key val b t')
  from delete_entry_len[OF delete.IH delete.hyps(2)] show ?case .
qed

text \<open>
  C6. In every tree between two calls (reached from the constructor by calls of
  \<^verbatim>\<open>insert_entry\<close> and \<^verbatim>\<open>delete_entry\<close> that return), every chain that a slot of the mapping table
  holds is such that each of its deltas has the chain length of its \<^verbatim>\<open>next\<close> plus one and its
  base node has chain length zero: whatever record, split and index-entry deltas the calls
  have installed, and whatever base nodes the constructor, the splits and the
  consolidations have installed.
\<close>

theorem chain_len_invariant:
  "reachable t \<Longrightarrow> MappingTable_get (mapping_table t) p = Ok (Some node)
   \<Longrightarrow> chain_len_ok node"
  using reachable_len[of t] by (simp add: table_len_ok_def)

theorem chain_len_invariant_witness:
  "\<exists>t' d. BWTree_ctor False 16 16 0 = Ok ex_new_tree
     \<and> insert_entry (Suc (Suc (Suc (Suc 0)))) ex_new_tree 5 (ItemPointer 1 0) = Ok (True, t')
     \<and> reachable t'
     \<and> MappingTable_get (mapping_table t') 0 = Ok (Some d)
     \<and> node_type d = RECORD_DELTA \<and> delta_list_len (hdr d) = 1 \<and> chain_len_ok d"
proof -
  have c: "BWTree_ctor False 16 16 0 = Ok ex_new_tree"
    by (simp add: BWTree_ctor_def ex_new_tree_def ex_tree_def MappingTable_add_def
          MappingTable_ctor_def Let_def GET_TIER1_INDEX_def GET_TIER2_INDEX_def
          MAPPING_TABLE_SIZE_def)
  obtain t' d where run: "insert_entry (Suc (Suc (Suc (Suc 0)))) ex_new_tree 5 (ItemPointer 1 0)
                          = Ok (True, t')"
    and g: "MappingTable_get (mapping_table t') 0 = Ok (Some d)"
    and d: "node_type d = RECORD_DELTA" "delta_list_len (hdr d) = 1"
    by (simp add: ex_new_tree_def new_LeafNode_def ex_run_defs ex_defs find_slot.simps insert_delta_def
          new_RecordDelta_def prepend_def MappingTable_set_def Let_def)
  from reachable.insert[OF reachable.ctor[OF c] run] have r: "reachable t'" .
  from chain_len_invariant[OF r g] c run r g d show ?thesis by blast
qed

end
